theory Spec2Isabelle
  imports Complex_Main "HOL-Library.AList" "HOL-Library.Char_ord" "HOL-Library.List_Lexorder"
    "HOL-Library.Multiset"
begin

section \<open>Python library functions used by dog\_bot.py\<close>

text \<open>
  A Python \<open>str\<close> is modelled as a \<open>string\<close> whose characters are the code points
  below 256. Exceptions are values of \<open>exn\<close>; a computation that may raise returns
  \<open>exn + 'a\<close>, with \<open>Inl\<close> the exception. \<open>UnicodeDecodeError\<close> and \<open>RecursionError\<close>
  come from \<open>json.load\<close> only, which \<open>load_data\<close> alone calls; neither is a
  \<open>json.JSONDecodeError\<close>, the one exception \<open>load_data\<close> catches.
\<close>

datatype exn = ValueError | IndexError | OSError | JobLookupError
  | UnicodeDecodeError | RecursionError

subsection \<open>Characters\<close>

definition is_digit :: "char \<Rightarrow> bool" where
  "is_digit c = (48 \<le> (of_char c :: nat) \<and> (of_char c :: nat) \<le> 57)"

definition digit_val :: "char \<Rightarrow> nat" where
  "digit_val c = of_char c - 48"

definition digit_char :: "nat \<Rightarrow> char" where
  "digit_char d = char_of (48 + d)"

text \<open>\<open>str.isspace\<close> on the code points below 256: TAB..CR, FS..US, space, NEL, NBSP.\<close>

definition py_isspace :: "char \<Rightarrow> bool" where
  "py_isspace c = (let n = (of_char c :: nat) in
     (9 \<le> n \<and> n \<le> 13) \<or> (28 \<le> n \<and> n \<le> 32) \<or> n = 133 \<or> n = 160)"

text \<open>\<open>str.lower\<close>, one character: A..Z and the Latin-1 capitals.\<close>

definition py_lower :: "char \<Rightarrow> char" where
  "py_lower c = (let n = (of_char c :: nat) in
     if (65 \<le> n \<and> n \<le> 90) \<or> (192 \<le> n \<and> n \<le> 222 \<and> n \<noteq> 215)
     then char_of (n + 32) else c)"

definition lower :: "string \<Rightarrow> string" where
  "lower s = map py_lower s"

subsection \<open>\<open>str.strip\<close>, \<open>str.split\<close>, \<open>str.replace\<close>\<close>

definition strip :: "string \<Rightarrow> string" where
  "strip s = rev (dropWhile py_isspace (rev (dropWhile py_isspace s)))"

text \<open>\<open>s.split()\<close>: the maximal runs of non-space characters; \<open>cur\<close> is the run being read.\<close>

fun split_run :: "string \<Rightarrow> string \<Rightarrow> string list" where
  "split_run cur [] = (if cur = [] then [] else [cur])"
| "split_run cur (c # cs) =
     (if py_isspace c then (if cur = [] then split_run [] cs else cur # split_run [] cs)
      else split_run (cur @ [c]) cs)"

definition split_ws :: "string \<Rightarrow> string list" where
  "split_ws s = split_run [] s"

text \<open>\<open>s.split(sep)\<close> for a one-character separator: empty pieces are kept.\<close>

fun split_sep :: "char \<Rightarrow> string \<Rightarrow> string list" where
  "split_sep sep [] = [[]]"
| "split_sep sep (c # cs) =
     (if c = sep then [] # split_sep sep cs
      else (case split_sep sep cs of
              [] \<Rightarrow> [[c]]
            | p # ps \<Rightarrow> (c # p) # ps))"

text \<open>\<open>s.replace(' ', '\_')\<close>.\<close>

definition replace_space :: "string \<Rightarrow> string" where
  "replace_space s = map (\<lambda>c. if c = CHR '' '' then CHR ''_'' else c) s"

subsection \<open>\<open>int(s)\<close> and \<open>str(n)\<close>\<close>

text \<open>
  A digit part is \<open>digit (["_"] digit)*\<close>: digits with single underscores between them.
\<close>

fun digitpart :: "string \<Rightarrow> bool" where
  "digitpart [] = False"
| "digitpart [c] = is_digit c"
| "digitpart (c # d # cs) =
     (is_digit c \<and> (if d = CHR ''_'' then digitpart cs else digitpart (d # cs)))"

definition digits_val :: "string \<Rightarrow> nat" where
  "digits_val s = foldl (\<lambda>a c. if is_digit c then 10 * a + digit_val c else a) 0 s"

text \<open>
  \<open>int(s)\<close> in base 10: surrounding whitespace is stripped, one sign is allowed, anything
  else raises \<open>ValueError\<close>. (The limit on the number of digits of recent Python versions
  is not modelled.)
\<close>

definition py_int :: "string \<Rightarrow> exn + int" where
  "py_int s = (case strip s of
       [] \<Rightarrow> Inl ValueError
     | c # cs \<Rightarrow>
         if c = CHR ''-'' then (if digitpart cs then Inr (- int (digits_val cs)) else Inl ValueError)
         else if c = CHR ''+'' then (if digitpart cs then Inr (int (digits_val cs)) else Inl ValueError)
         else if digitpart (c # cs) then Inr (int (digits_val (c # cs))) else Inl ValueError)"

function digits_of :: "nat \<Rightarrow> string" where
  "digits_of n = (if n < 10 then [digit_char n] else digits_of (n div 10) @ [digit_char (n mod 10)])"
  by pat_completeness auto
termination
  by (relation "measure id") auto

declare digits_of.simps [simp del]

definition py_str :: "int \<Rightarrow> string" where
  "py_str n = (if n < 0 then CHR ''-'' # digits_of (nat (- n)) else digits_of (nat n))"

subsection \<open>\<open>float(s)\<close>\<close>

text \<open>
  The value of a Python float. A finite value is the rational the literal denotes: the
  rounding to the nearest double (and with it overflow to infinity and the sign of zero)
  is not modelled. \<open>Infinity True\<close> is \<open>-inf\<close>.
\<close>

datatype pyfloat = Finite rat | Infinity bool | NaN

text \<open>The text before the first character satisfying \<open>P\<close>, and the text after it, if any.\<close>

fun break_at :: "(char \<Rightarrow> bool) \<Rightarrow> string \<Rightarrow> string \<times> string option" where
  "break_at P [] = ([], None)"
| "break_at P (c # cs) =
     (if P c then ([], Some cs)
      else (case break_at P cs of (a, b) \<Rightarrow> (c # a, b)))"

definition pow10 :: "int \<Rightarrow> rat" where
  "pow10 e = (if 0 \<le> e then 10 ^ nat e else 1 / 10 ^ nat (- e))"

text \<open>\<open>number ::= [digitpart] "." digitpart | digitpart ["."]\<close>\<close>

definition parse_number :: "string \<Rightarrow> rat option" where
  "parse_number s = (case break_at (\<lambda>c. c = CHR ''.'') s of
       (ip, None) \<Rightarrow> if digitpart ip then Some (of_nat (digits_val ip)) else None
     | (ip, Some fp) \<Rightarrow>
         if (digitpart fp \<and> (ip = [] \<or> digitpart ip)) \<or> (digitpart ip \<and> fp = [])
         then Some (of_nat (digits_val ip)
                    + of_nat (digits_val fp) * pow10 (- int (length (filter is_digit fp))))
         else None)"

text \<open>\<open>exponent ::= ("e" | "E") [sign] digitpart\<close>, without the letter.\<close>

definition parse_exponent :: "string \<Rightarrow> int option" where
  "parse_exponent s = (case s of
       [] \<Rightarrow> None
     | c # cs \<Rightarrow>
         if c = CHR ''-'' then (if digitpart cs then Some (- int (digits_val cs)) else None)
         else if c = CHR ''+'' then (if digitpart cs then Some (int (digits_val cs)) else None)
         else if digitpart (c # cs) then Some (int (digits_val (c # cs))) else None)"

text \<open>\<open>floatnumber ::= number [exponent]\<close>\<close>

definition parse_floatnumber :: "string \<Rightarrow> rat option" where
  "parse_floatnumber s = (case break_at (\<lambda>c. c = CHR ''e'' \<or> c = CHR ''E'') s of
       (m, None) \<Rightarrow> parse_number m
     | (m, Some ex) \<Rightarrow>
         (case parse_number m of
            None \<Rightarrow> None
          | Some v \<Rightarrow> (case parse_exponent ex of None \<Rightarrow> None | Some e \<Rightarrow> Some (v * pow10 e))))"

text \<open>
  \<open>float(s)\<close>: surrounding whitespace is stripped, one sign is allowed, then
  \<open>inf\<close>, \<open>infinity\<close> or \<open>nan\<close> in any case, or a float number.
\<close>

definition py_float :: "string \<Rightarrow> exn + pyfloat" where
  "py_float s = (let t = strip s;
                     neg = (case t of [] \<Rightarrow> False | c # _ \<Rightarrow> c = CHR ''-'');
                     body = (case t of [] \<Rightarrow> [] | c # cs \<Rightarrow> if c = CHR ''-'' \<or> c = CHR ''+'' then cs else t)
     in if lower body = ''inf'' \<or> lower body = ''infinity'' then Inr (Infinity neg)
        else if lower body = ''nan'' then Inr NaN
        else (case parse_floatnumber body of
                None \<Rightarrow> Inl ValueError
              | Some v \<Rightarrow> Inr (Finite (if neg then - v else v))))"

subsection \<open>\<open>datetime.strptime\<close>\<close>

text \<open>
  \<open>strptime\<close> compiles the format into a regular expression, matches it at the start of
  the text and raises \<open>ValueError\<close> when nothing matches or when text remains after the
  match. A directive is a list of alternatives tried in order; each function below
  returns, in that order, the number read and the rest of the text for every alternative
  that matches, so that the head of the composed list is the match the regex engine
  finds.
\<close>

text \<open>Two characters satisfying \<open>P\<close> and \<open>Q\<close>, read as a two-digit number.\<close>

definition two :: "(char \<Rightarrow> bool) \<Rightarrow> (char \<Rightarrow> bool) \<Rightarrow> string \<Rightarrow> (nat \<times> string) list" where
  "two P Q s = (case s of
       a # b # r \<Rightarrow> if P a \<and> Q b then [(10 * digit_val a + digit_val b, r)] else []
     | _ \<Rightarrow> [])"

definition one :: "(char \<Rightarrow> bool) \<Rightarrow> string \<Rightarrow> (nat \<times> string) list" where
  "one P s = (case s of a # r \<Rightarrow> if P a then [(digit_val a, r)] else [] | _ \<Rightarrow> [])"

definition lit :: "char \<Rightarrow> string \<Rightarrow> string list" where
  "lit c s = (case s of a # r \<Rightarrow> if a = c then [r] else [] | _ \<Rightarrow> [])"

definition in_range :: "nat \<Rightarrow> nat \<Rightarrow> char \<Rightarrow> bool" where
  "in_range lo hi c = (is_digit c \<and> lo \<le> digit_val c \<and> digit_val c \<le> hi)"

text \<open>\<open>%H\<close> is \<open>2[0-3]|[0-1]\d|\d\<close> and \<open>%M\<close> is \<open>[0-5]\d|\d\<close>.\<close>

definition re_H :: "string \<Rightarrow> (nat \<times> string) list" where
  "re_H s = two (in_range 2 2) (in_range 0 3) s @ two (in_range 0 1) is_digit s @ one is_digit s"

definition re_M :: "string \<Rightarrow> (nat \<times> string) list" where
  "re_M s = two (in_range 0 5) is_digit s @ one is_digit s"

text \<open>\<open>%Y\<close> is \<open>\d\d\d\d\<close>, \<open>%m\<close> is \<open>1[0-2]|0[1-9]|[1-9]\<close> and
  \<open>%d\<close> is \<open>3[0-1]|[1-2]\d|0[1-9]|[1-9]| [1-9]\<close>.\<close>

definition re_Y :: "string \<Rightarrow> (nat \<times> string) list" where
  "re_Y s = (case s of
       a # b # c # d # r \<Rightarrow>
         if is_digit a \<and> is_digit b \<and> is_digit c \<and> is_digit d
         then [(1000 * digit_val a + 100 * digit_val b + 10 * digit_val c + digit_val d, r)]
         else []
     | _ \<Rightarrow> [])"

definition re_m :: "string \<Rightarrow> (nat \<times> string) list" where
  "re_m s = two (in_range 1 1) (in_range 0 2) s @ two (in_range 0 0) (in_range 1 9) s
            @ one (in_range 1 9) s"

definition re_d :: "string \<Rightarrow> (nat \<times> string) list" where
  "re_d s = two (in_range 3 3) (in_range 0 1) s @ two (in_range 1 2) is_digit s
            @ two (in_range 0 0) (in_range 1 9) s @ one (in_range 1 9) s
            @ concat (map (one (in_range 1 9)) (lit CHR '' '' s))"

text \<open>\<open>datetime.strptime(s, '%H:%M')\<close>: the hour and the minute, or \<open>ValueError\<close>.\<close>

definition match_HM :: "string \<Rightarrow> (nat \<times> nat \<times> string) list" where
  "match_HM s = concat (map (\<lambda>(h, r1).
       concat (map (\<lambda>r2. map (\<lambda>(m, r3). (h, m, r3)) (re_M r2)) (lit CHR '':'' r1))) (re_H s))"

definition strptime_HM :: "string \<Rightarrow> exn + nat \<times> nat" where
  "strptime_HM s = (case match_HM s of
       [] \<Rightarrow> Inl ValueError
     | (h, m, r) # _ \<Rightarrow> if r = [] then Inr (h, m) else Inl ValueError)"

text \<open>The days of a month of the proleptic Gregorian calendar, as \<open>datetime.date\<close> checks them.\<close>

definition is_leap :: "nat \<Rightarrow> bool" where
  "is_leap y = (y mod 4 = 0 \<and> (y mod 100 \<noteq> 0 \<or> y mod 400 = 0))"

definition days_in_month :: "nat \<Rightarrow> nat \<Rightarrow> nat" where
  "days_in_month y m =
     (if m = 2 then (if is_leap y then 29 else 28)
      else if m = 4 \<or> m = 6 \<or> m = 9 \<or> m = 11 then 30 else 31)"

text \<open>
  \<open>datetime.strptime(s, '%Y-%m-%d')\<close>: after the match the date is built, which raises
  \<open>ValueError\<close> for the year 0 and for a day the month does not have.
\<close>

definition match_Ymd :: "string \<Rightarrow> (nat \<times> nat \<times> nat \<times> string) list" where
  "match_Ymd s = concat (map (\<lambda>(y, r1).
       concat (map (\<lambda>r2.
         concat (map (\<lambda>(m, r3).
           concat (map (\<lambda>r4. map (\<lambda>(d, r5). (y, m, d, r5)) (re_d r4)) (lit CHR ''-'' r3)))
         (re_m r2))) (lit CHR ''-'' r1))) (re_Y s))"

definition strptime_Ymd :: "string \<Rightarrow> exn + nat \<times> nat \<times> nat" where
  "strptime_Ymd s = (case match_Ymd s of
       [] \<Rightarrow> Inl ValueError
     | (y, m, d, r) # _ \<Rightarrow>
         if r \<noteq> [] then Inl ValueError
         else if 1 \<le> y \<and> d \<le> days_in_month y m then Inr (y, m, d)
         else Inl ValueError)"

section \<open>The data of dog\_bot.py\<close>

text \<open>
  \<open>user_data\<close> is a dictionary from \<open>str(user_id)\<close> to a record of two lists. A Python
  dictionary keeps its keys in insertion order, so it is an association list with
  distinct keys: \<open>map_of\<close> looks a key up and \<open>AList.update\<close> stores a value, in place for
  a key that is present and at the end for a new one.
\<close>

record weight_entry =
  date :: string
  weight :: pyfloat

record reminder =
  time :: string
  message :: string

record user_record =
  weights :: "weight_entry list"
  reminders :: "reminder list"

type_synonym store = "(string \<times> user_record) list"

text \<open>
  The data file \<open>DATA_FILE\<close>, by what \<open>os.path.exists\<close>, \<open>open\<close> and \<open>json.load\<close> do
  with it:
  \<^item> \<open>Absent\<close>: \<open>os.path.exists\<close> is false;
  \<^item> \<open>Unreadable\<close>: it exists and \<open>open\<close> raises \<open>OSError\<close> (no permission, a directory);
  \<^item> \<open>Undecodable\<close>: it opens, and its bytes are not text in the encoding of \<open>open\<close>, so
    that the read inside \<open>json.load\<close> raises \<open>UnicodeDecodeError\<close>;
  \<^item> \<open>Malformed\<close>: it holds text that the JSON parser refuses with
    \<open>json.JSONDecodeError\<close> (the empty file is one);
  \<^item> \<open>Too_deep\<close>: it holds text nested deeper than the parser's recursion limit, so
    that \<open>json.load\<close> raises \<open>RecursionError\<close>;
  \<^item> \<open>Content d\<close>: it holds the JSON of a dictionary of user records, as \<open>save_data\<close>
    writes it, and \<open>json.load\<close> returns \<open>d\<close>.
\<close>

datatype data_file = Absent | Unreadable | Undecodable | Malformed | Too_deep | Content store

text \<open>
  A job of the scheduler: its id, the hour and minute of its cron trigger, and the chat
  and the text of the reminder that \<open>send_reminder\<close> sends.
\<close>

record job =
  job_id :: string
  hour :: int
  minute :: int
  chat_id :: int
  reminder_message :: string

text \<open>\<open>context.user_data\<close>, the scratch dictionary the conversations keep for one user.\<close>

record user_context =
  temp_weight :: "pyfloat option"
  temp_reminder_time :: "string option"

definition empty_context :: user_context where
  "empty_context = \<lparr>temp_weight = None, temp_reminder_time = None\<rparr>"

text \<open>What the handlers read of an update: the sender, the text and \<open>context.args\<close>.\<close>

record update =
  from_user_id :: int
  message_text :: string
  args :: "string list"

text \<open>The messages the bot sends, one constructor for each \<open>reply_text\<close> of the source.\<close>

datatype reply =
    Welcome
  | Ask_weight
  | Ask_date
  | Invalid_weight
  | Invalid_date
  | Weight_recorded pyfloat string
  | Weight_went_wrong
  | No_weights
  | Weight_history "weight_entry list"
  | Ask_time
  | Ask_message
  | Invalid_time_format
  | Reminder_set string string
  | Schedule_failed
  | Reminder_went_wrong
  | No_reminders
  | Reminder_list "(nat \<times> reminder) list"
  | Specify_number
  | Invalid_number
  | Reminder_deleted string string
  | Invalid_input
  | Delete_failed
  | Operation_canceled

datatype level = INFO | WARNING | ERROR

text \<open>The lines the logger writes, one constructor for each logging call of the source.\<close>

datatype log_line =
    Data_loaded
  | Data_corrupt
  | Data_not_found
  | Data_saved
  | Error_saving
  | Job_exists string
  | Reminder_scheduled int string string
  | Invalid_time string
  | Error_scheduling
  | Job_removed string
  | Job_not_found string
  | Error_removing string
  | Jobs_repopulated
  | Error_deleting
  | User_canceled

text \<open>
  The state of the program and of what it acts on: the global \<open>user_data\<close>, the jobs of
  the global \<open>scheduler\<close>, the data file and whether it can be written, the conversations'
  \<open>context.user_data\<close> of every user, the messages sent and the lines logged.
\<close>

record bot_state =
  user_data :: store
  jobs :: "job list"
  disk :: data_file
  disk_writable :: bool
  contexts :: "int \<Rightarrow> user_context"
  sent :: "(int \<times> reply) list"
  logged :: "(level \<times> log_line) list"

definition logger :: "level \<Rightarrow> log_line \<Rightarrow> bot_state \<Rightarrow> bot_state" where
  "logger lv l s = s\<lparr>logged := logged s @ [(lv, l)]\<rparr>"

definition reply_text :: "update \<Rightarrow> reply \<Rightarrow> bot_state \<Rightarrow> bot_state" where
  "reply_text u r s = s\<lparr>sent := sent s @ [(from_user_id u, r)]\<rparr>"

section \<open>Helper functions\<close>

definition load_data :: "bot_state \<Rightarrow> (exn + store) \<times> bot_state" where
  "load_data s = (case disk s of
       Absent \<Rightarrow> (Inr (user_data s), logger INFO Data_not_found s)
     | Unreadable \<Rightarrow> (Inl OSError, s)
     | Undecodable \<Rightarrow> (Inl UnicodeDecodeError, s)
     | Malformed \<Rightarrow> (Inr [], (logger WARNING Data_corrupt s)\<lparr>user_data := []\<rparr>)
     | Too_deep \<Rightarrow> (Inl RecursionError, s)
     | Content d \<Rightarrow> (Inr d, logger INFO Data_loaded (s\<lparr>user_data := d\<rparr>)))"

definition save_data :: "bot_state \<Rightarrow> bot_state" where
  "save_data s =
     (if disk_writable s then logger INFO Data_saved (s\<lparr>disk := Content (user_data s)\<rparr>)
      else logger ERROR Error_saving s)"

definition empty_record :: user_record where
  "empty_record = \<lparr>weights = [], reminders = []\<rparr>"

definition get_user_data :: "int \<Rightarrow> bot_state \<Rightarrow> user_record \<times> bot_state" where
  "get_user_data user_id s = (case map_of (user_data s) (py_str user_id) of
       None \<Rightarrow> (empty_record, s\<lparr>user_data := AList.update (py_str user_id) empty_record (user_data s)\<rparr>)
     | Some d \<Rightarrow> (d, s))"

text \<open>Storing the changed record of a user: the mutation of the list inside \<open>user_data\<close>.\<close>

definition set_user_data :: "int \<Rightarrow> user_record \<Rightarrow> bot_state \<Rightarrow> bot_state" where
  "set_user_data user_id d s = s\<lparr>user_data := AList.update (py_str user_id) d (user_data s)\<rparr>"

subsection \<open>The scheduler\<close>

definition get_job :: "string \<Rightarrow> bot_state \<Rightarrow> job option" where
  "get_job i s = find (\<lambda>j. job_id j = i) (jobs s)"

text \<open>\<open>CronTrigger(hour=h, minute=m)\<close> raises \<open>ValueError\<close> for a field out of range.\<close>

definition cron_trigger :: "int \<Rightarrow> int \<Rightarrow> exn + int \<times> int" where
  "cron_trigger h m = (if 0 \<le> h \<and> h \<le> 23 \<and> 0 \<le> m \<and> m \<le> 59 then Inr (h, m) else Inl ValueError)"

text \<open>\<open>scheduler.add_job(..., replace_existing=True)\<close>\<close>

definition add_job :: "job \<Rightarrow> bot_state \<Rightarrow> bot_state" where
  "add_job j s = s\<lparr>jobs := filter (\<lambda>k. job_id k \<noteq> job_id j) (jobs s) @ [j]\<rparr>"

definition remove_job :: "string \<Rightarrow> bot_state \<Rightarrow> (exn + unit) \<times> bot_state" where
  "remove_job i s = (case get_job i s of
       None \<Rightarrow> (Inl JobLookupError, s)
     | Some _ \<Rightarrow> (Inr (), s\<lparr>jobs := filter (\<lambda>k. job_id k \<noteq> i) (jobs s)\<rparr>))"

text \<open>\<open>hour, minute = map(int, reminder_time.split(':'))\<close>: every failure is a \<open>ValueError\<close>.\<close>

definition parse_hour_minute :: "string \<Rightarrow> exn + int \<times> int" where
  "parse_hour_minute t = (case split_sep CHR '':'' t of
       [a, b] \<Rightarrow> (case py_int a of
                    Inl e \<Rightarrow> Inl e
                  | Inr h \<Rightarrow> (case py_int b of Inl e \<Rightarrow> Inl e | Inr m \<Rightarrow> Inr (h, m)))
     | _ \<Rightarrow> Inl ValueError)"

definition job_id_of :: "int \<Rightarrow> string \<Rightarrow> string \<Rightarrow> string" where
  "job_id_of chat t msg = ''reminder_'' @ py_str chat @ ''_'' @ t @ ''_'' @ replace_space msg"

text \<open>
  \<open>schedule_reminder_job\<close> returns \<open>True\<close>, \<open>False\<close>, or \<open>None\<close> when the job exists already.
\<close>

definition schedule_reminder_job ::
    "int \<Rightarrow> string \<Rightarrow> string \<Rightarrow> bot_state \<Rightarrow> bool option \<times> bot_state" where
  "schedule_reminder_job chat t msg s = (case parse_hour_minute t of
       Inl e \<Rightarrow> (Some False, logger ERROR (if e = ValueError then Invalid_time t else Error_scheduling) s)
     | Inr (h, m) \<Rightarrow>
         (case get_job (job_id_of chat t msg) s of
            Some _ \<Rightarrow> (None, logger INFO (Job_exists (job_id_of chat t msg)) s)
          | None \<Rightarrow>
              (case cron_trigger h m of
                 Inl e \<Rightarrow> (Some False,
                     logger ERROR (if e = ValueError then Invalid_time t else Error_scheduling) s)
               | Inr (ch, cm) \<Rightarrow> (Some True,
                     logger INFO (Reminder_scheduled chat t msg)
                       (add_job \<lparr>job_id = job_id_of chat t msg, hour = ch, minute = cm,
                                 chat_id = chat, reminder_message = msg\<rparr> s)))))"

definition remove_reminder_job :: "string \<Rightarrow> bot_state \<Rightarrow> bool \<times> bot_state" where
  "remove_reminder_job i s = (case remove_job i s of
       (Inr _, s') \<Rightarrow> (True, logger INFO (Job_removed i) s')
     | (Inl e, s') \<Rightarrow>
         (False, if e = JobLookupError then logger WARNING (Job_not_found i) s'
                 else logger ERROR (Error_removing i) s'))"

text \<open>The inner loop of \<open>repopulate_scheduled_jobs\<close>, over the reminders of one user.\<close>

fun repopulate_user :: "int \<Rightarrow> reminder list \<Rightarrow> bot_state \<Rightarrow> bot_state" where
  "repopulate_user chat [] s = s"
| "repopulate_user chat (r # rs) s =
     repopulate_user chat rs (snd (schedule_reminder_job chat (time r) (message r) s))"

text \<open>The outer loop, over the items of \<open>user_data\<close>; \<open>int(user_id_str)\<close> may raise.\<close>

fun repopulate_items :: "store \<Rightarrow> bot_state \<Rightarrow> (exn + unit) \<times> bot_state" where
  "repopulate_items [] s = (Inr (), s)"
| "repopulate_items ((user_id_str, d) # rest) s = (case py_int user_id_str of
       Inl e \<Rightarrow> (Inl e, s)
     | Inr chat \<Rightarrow> repopulate_items rest (repopulate_user chat (reminders d) s))"

definition repopulate_scheduled_jobs :: "bot_state \<Rightarrow> (exn + unit) \<times> bot_state" where
  "repopulate_scheduled_jobs s = (case repopulate_items (user_data s) s of
       (Inl e, s') \<Rightarrow> (Inl e, s')
     | (Inr _, s') \<Rightarrow> (Inr (), logger INFO Jobs_repopulated s'))"

section \<open>Command handlers\<close>

definition GET_WEIGHT :: int where "GET_WEIGHT = 0"
definition GET_WEIGHT_DATE :: int where "GET_WEIGHT_DATE = 1"
definition GET_REMINDER_TIME :: int where "GET_REMINDER_TIME = 0"
definition GET_REMINDER_MESSAGE :: int where "GET_REMINDER_MESSAGE = 1"

text \<open>\<open>ConversationHandler.END\<close>\<close>

definition END :: int where "END = - 1"

definition set_context :: "int \<Rightarrow> user_context \<Rightarrow> bot_state \<Rightarrow> bot_state" where
  "set_context user_id c s = s\<lparr>contexts := (contexts s)(user_id := c)\<rparr>"

definition start :: "update \<Rightarrow> bot_state \<Rightarrow> (exn + unit) \<times> bot_state" where
  "start u s = (Inr (), reply_text u Welcome s)"

subsection \<open>Weight tracking\<close>

definition add_weight_start :: "update \<Rightarrow> bot_state \<Rightarrow> (exn + int) \<times> bot_state" where
  "add_weight_start u s = (Inr GET_WEIGHT, reply_text u Ask_weight s)"

text \<open>
  \<open>weight_str.split()[0]\<close> raises \<open>IndexError\<close> on a text without a token, which the
  handler does not catch; the \<open>ValueError\<close> of \<open>float\<close> it catches.
\<close>

definition add_weight_get_weight :: "update \<Rightarrow> bot_state \<Rightarrow> (exn + int) \<times> bot_state" where
  "add_weight_get_weight u s = (case split_ws (message_text u) of
       [] \<Rightarrow> (Inl IndexError, s)
     | tok # _ \<Rightarrow>
         (case py_float tok of
            Inl e \<Rightarrow> if e = ValueError then (Inr GET_WEIGHT, reply_text u Invalid_weight s)
                     else (Inl e, s)
          | Inr w \<Rightarrow> (Inr GET_WEIGHT_DATE,
               reply_text u Ask_date
                 (set_context (from_user_id u)
                    ((contexts s (from_user_id u))\<lparr>temp_weight := Some w\<rparr>) s))))"

text \<open>
  The date the handler settles on: \<open>today\<close> is what
  \<open>datetime.now().strftime('%Y-%m-%d')\<close> returns when the update is handled.
\<close>

definition weight_date :: "string \<Rightarrow> string \<Rightarrow> exn + string" where
  "weight_date today date_str =
     (if date_str = ''today'' then Inr today
      else (case strptime_Ymd date_str of Inl e \<Rightarrow> Inl e | Inr _ \<Rightarrow> Inr date_str))"

definition add_weight_get_date :: "string \<Rightarrow> update \<Rightarrow> bot_state \<Rightarrow> (exn + int) \<times> bot_state" where
  "add_weight_get_date today u s = (case weight_date today (lower (message_text u)) of
       Inl e \<Rightarrow> if e = ValueError then (Inr GET_WEIGHT_DATE, reply_text u Invalid_date s)
                else (Inl e, s)
     | Inr d \<Rightarrow>
         (case get_user_data (from_user_id u) s of (user_data_entry, s1) \<Rightarrow>
           (let s2 = (case temp_weight (contexts s1 (from_user_id u)) of
                        Some w \<Rightarrow>
                          reply_text u (Weight_recorded w d)
                            (save_data
                               (set_user_data (from_user_id u)
                                  (user_data_entry\<lparr>weights := weights user_data_entry
                                       @ [\<lparr>date = d, weight = w\<rparr>]\<rparr>) s1))
                      | None \<Rightarrow> reply_text u Weight_went_wrong s1)
            in (Inr END,
                set_context (from_user_id u)
                  ((contexts s2 (from_user_id u))\<lparr>temp_weight := None\<rparr>) s2))))"

text \<open>\<open>sorted(weights, key=lambda x: x['date'])\<close> is a stable sort on the date strings.\<close>

definition view_weights :: "update \<Rightarrow> bot_state \<Rightarrow> (exn + unit) \<times> bot_state" where
  "view_weights u s = (case get_user_data (from_user_id u) s of (user_data_entry, s1) \<Rightarrow>
       if weights user_data_entry = [] then (Inr (), reply_text u No_weights s1)
       else (Inr (), reply_text u (Weight_history (sort_key date (weights user_data_entry))) s1))"

subsection \<open>Reminders\<close>

definition add_reminder_start :: "update \<Rightarrow> bot_state \<Rightarrow> (exn + int) \<times> bot_state" where
  "add_reminder_start u s = (Inr GET_REMINDER_TIME, reply_text u Ask_time s)"

definition add_reminder_get_time :: "update \<Rightarrow> bot_state \<Rightarrow> (exn + int) \<times> bot_state" where
  "add_reminder_get_time u s = (case strptime_HM (message_text u) of
       Inl e \<Rightarrow> if e = ValueError then (Inr GET_REMINDER_TIME, reply_text u Invalid_time_format s)
                else (Inl e, s)
     | Inr _ \<Rightarrow> (Inr GET_REMINDER_MESSAGE,
          reply_text u Ask_message
            (set_context (from_user_id u)
               ((contexts s (from_user_id u))\<lparr>temp_reminder_time := Some (message_text u)\<rparr>) s)))"

text \<open>
  \<open>if reminder_time and reminder_message\<close>: neither is \<open>None\<close> or empty. The reminder is
  appended and saved before the job is scheduled, and only the result \<open>True\<close> of
  \<open>schedule_reminder_job\<close> counts as success.
\<close>

definition store_and_schedule :: "string \<Rightarrow> update \<Rightarrow> bot_state \<Rightarrow> bot_state" where
  "store_and_schedule reminder_time u s =
     (case get_user_data (from_user_id u) s of (user_data_entry, s1) \<Rightarrow>
        (case schedule_reminder_job (from_user_id u) reminder_time (message_text u)
                (save_data
                   (set_user_data (from_user_id u)
                      (user_data_entry\<lparr>reminders := reminders user_data_entry
                           @ [\<lparr>time = reminder_time, message = message_text u\<rparr>]\<rparr>) s1)) of
           (res, s2) \<Rightarrow>
             if res = Some True then reply_text u (Reminder_set reminder_time (message_text u)) s2
             else reply_text u Schedule_failed s2))"

definition add_reminder_get_message :: "update \<Rightarrow> bot_state \<Rightarrow> (exn + int) \<times> bot_state" where
  "add_reminder_get_message u s =
     (let s2 = (case temp_reminder_time (contexts s (from_user_id u)) of
                  None \<Rightarrow> reply_text u Reminder_went_wrong s
                | Some reminder_time \<Rightarrow>
                    if reminder_time \<noteq> [] \<and> message_text u \<noteq> []
                    then store_and_schedule reminder_time u s
                    else reply_text u Reminder_went_wrong s)
      in (Inr END,
          set_context (from_user_id u)
            ((contexts s2 (from_user_id u))\<lparr>temp_reminder_time := None\<rparr>) s2))"

text \<open>\<open>enumerate(reminders)\<close>, listed as \<open>i + 1\<close>.\<close>

definition list_reminders :: "update \<Rightarrow> bot_state \<Rightarrow> (exn + unit) \<times> bot_state" where
  "list_reminders u s = (case get_user_data (from_user_id u) s of (user_data_entry, s1) \<Rightarrow>
       if reminders user_data_entry = [] then (Inr (), reply_text u No_reminders s1)
       else (Inr (), reply_text u
               (Reminder_list (map (\<lambda>(i, r). (i + 1, r)) (List.enumerate 0 (reminders user_data_entry))))
               s1))"

text \<open>\<open>xs.pop(i)\<close> for \<open>i \<ge> 0\<close>: the element and the list without it, or \<open>IndexError\<close>.\<close>

definition pop :: "nat \<Rightarrow> 'a list \<Rightarrow> exn + 'a \<times> 'a list" where
  "pop i xs = (if i < length xs then Inr (xs ! i, take i xs @ drop (Suc i) xs) else Inl IndexError)"

text \<open>
  The body of the \<open>try\<close> of \<open>delete_reminder\<close> once the index is known to be in range;
  \<open>except Exception\<close> turns any exception into a reply.
\<close>

definition delete_at :: "nat \<Rightarrow> user_record \<Rightarrow> update \<Rightarrow> bot_state \<Rightarrow> bot_state" where
  "delete_at i user_data_entry u s = (case pop i (reminders user_data_entry) of
       Inl e \<Rightarrow> reply_text u Delete_failed (logger ERROR Error_deleting s)
     | Inr (deleted_reminder, rest) \<Rightarrow>
         reply_text u (Reminder_deleted (message deleted_reminder) (time deleted_reminder))
           (snd (remove_reminder_job
                   (job_id_of (from_user_id u) (time deleted_reminder) (message deleted_reminder))
                   (save_data
                      (set_user_data (from_user_id u)
                         (user_data_entry\<lparr>reminders := rest\<rparr>) s)))))"

definition delete_reminder :: "update \<Rightarrow> bot_state \<Rightarrow> (exn + unit) \<times> bot_state" where
  "delete_reminder u s = (case get_user_data (from_user_id u) s of (user_data_entry, s1) \<Rightarrow>
       (case args u of
          [] \<Rightarrow> (Inr (), reply_text u Specify_number s1)
        | a # _ \<Rightarrow>
            (case py_int a of
               Inl e \<Rightarrow> if e = ValueError then (Inr (), reply_text u Invalid_input s1)
                        else (Inr (), reply_text u Delete_failed (logger ERROR Error_deleting s1))
             | Inr n \<Rightarrow>
                 if \<not> (0 \<le> n - 1 \<and> n - 1 < int (length (reminders user_data_entry)))
                 then (Inr (), reply_text u Invalid_number s1)
                 else (Inr (), delete_at (nat (n - 1)) user_data_entry u s1))))"

definition cancel :: "update \<Rightarrow> bot_state \<Rightarrow> (exn + int) \<times> bot_state" where
  "cancel u s = (Inr END,
     set_context (from_user_id u) empty_context
       (reply_text u Operation_canceled (logger INFO User_canceled s)))"

section \<open>The process\<close>

text \<open>
  A new process: the module sets \<open>user_data = {}\<close> and creates a scheduler without jobs,
  and no conversation is open. The data file, the messages sent and the log stay.
\<close>

definition process_start :: "bot_state \<Rightarrow> bot_state" where
  "process_start s = s\<lparr>user_data := [], jobs := [], contexts := (\<lambda>_. empty_context)\<rparr>"

text \<open>\<open>main\<close> up to \<open>updater.start_polling()\<close>; an exception ends the process.\<close>

definition main_start :: "bot_state \<Rightarrow> (exn + unit) \<times> bot_state" where
  "main_start s = (case load_data (process_start s) of
       (Inl e, s1) \<Rightarrow> (Inl e, s1)
     | (Inr _, s1) \<Rightarrow> repopulate_scheduled_jobs s1)"

text \<open>\<open>main\<close> after \<open>updater.idle()\<close> returns.\<close>

definition main_stop :: "bot_state \<Rightarrow> bot_state" where
  "main_stop s = save_data s"

text \<open>
  What can happen to a running bot: an update reaches one of the handlers, the process
  is stopped and started again (stopped by a signal, so that \<open>main\<close> saves the data, or
  killed), or the data file becomes writable or read-only. An exception a handler
  raises is taken by the dispatcher; what the handler did before stays.
\<close>

datatype event =
    Start update
  | Add_weight_start update
  | Add_weight_get_weight update
  | Add_weight_get_date string update
  | View_weights update
  | Add_reminder_start update
  | Add_reminder_get_time update
  | Add_reminder_get_message update
  | List_reminders update
  | Delete_reminder update
  | Cancel update
  | Restart bool
  | Set_writable bool

fun step :: "event \<Rightarrow> bot_state \<Rightarrow> bot_state" where
  "step (Start u) s = snd (start u s)"
| "step (Add_weight_start u) s = snd (add_weight_start u s)"
| "step (Add_weight_get_weight u) s = snd (add_weight_get_weight u s)"
| "step (Add_weight_get_date today u) s = snd (add_weight_get_date today u s)"
| "step (View_weights u) s = snd (view_weights u s)"
| "step (Add_reminder_start u) s = snd (add_reminder_start u s)"
| "step (Add_reminder_get_time u) s = snd (add_reminder_get_time u s)"
| "step (Add_reminder_get_message u) s = snd (add_reminder_get_message u s)"
| "step (List_reminders u) s = snd (list_reminders u s)"
| "step (Delete_reminder u) s = snd (delete_reminder u s)"
| "step (Cancel u) s = snd (cancel u s)"
| "step (Restart graceful) s = snd (main_start (if graceful then main_stop s else s))"
| "step (Set_writable w) s = s\<lparr>disk_writable := w\<rparr>"

text \<open>The state before the first start: no data file yet, nothing sent or logged.\<close>

definition installed :: bot_state where
  "installed = \<lparr>user_data = [], jobs = [], disk = Absent, disk_writable = True,
                contexts = (\<lambda>_. empty_context), sent = [], logged = []\<rparr>"

text \<open>The state after the first start and the events \<open>evs\<close>, in order.\<close>

definition run :: "event list \<Rightarrow> bot_state" where
  "run evs = foldl (\<lambda>s ev. step ev s) (snd (main_start installed)) evs"

section \<open>What the specification speaks of\<close>

text \<open>
  The time texts the code takes, which are those that \<open>datetime.strptime\<close> reads with the
  format \<open>%H:%M\<close> (lemma \<open>valid_time_iff\<close>): an hour field and a minute field with a colon
  between them, each of one or two decimal digits, the hour at most 23 and the minute at
  most 59. The text \<open>8:5\<close> is one of them.
\<close>

definition field_ok :: "nat \<Rightarrow> string \<Rightarrow> bool" where
  "field_ok hi f = (f \<noteq> [] \<and> length f \<le> 2 \<and> list_all is_digit f \<and> digits_val f \<le> hi)"

definition valid_time :: "string \<Rightarrow> bool" where
  "valid_time t = (case split_sep CHR '':'' t of
       [hh, mm] \<Rightarrow> field_ok 23 hh \<and> field_ok 59 mm
     | _ \<Rightarrow> False)"

text \<open>
  The form \<open>HH:MM\<close> of the specification, 24-hour: two decimal digits, a colon and two
  decimal digits, with \<open>0 \<le> HH \<le> 23\<close> and \<open>0 \<le> MM \<le> 59\<close>.
\<close>

definition two_digits :: "nat \<Rightarrow> string \<Rightarrow> bool" where
  "two_digits hi f = (length f = 2 \<and> list_all is_digit f \<and> digits_val f \<le> hi)"

definition hh_mm :: "string \<Rightarrow> bool" where
  "hh_mm t = (case split_sep CHR '':'' t of
       [hh, mm] \<Rightarrow> two_digits 23 hh \<and> two_digits 59 mm
     | _ \<Rightarrow> False)"

text \<open>The record of a user as the Store gives it: empty for a user it does not know.\<close>

definition record_of :: "int \<Rightarrow> bot_state \<Rightarrow> user_record" where
  "record_of user_id s = (case map_of (user_data s) (py_str user_id) of
       None \<Rightarrow> empty_record
     | Some d \<Rightarrow> d)"

text \<open>The identities of the live jobs, and how many live jobs have a given identity.\<close>

definition job_ids :: "bot_state \<Rightarrow> string list" where
  "job_ids s = map job_id (jobs s)"

definition live_jobs :: "string \<Rightarrow> bot_state \<Rightarrow> nat" where
  "live_jobs i s = length (filter (\<lambda>j. job_id j = i) (jobs s))"

text \<open>
  The identities derivable from a store: for every item whose key reads as an integer,
  as \<open>repopulate_scheduled_jobs\<close> reads it, the identity of each of its reminders.
\<close>

definition item_ids :: "string \<times> user_record \<Rightarrow> string list" where
  "item_ids item = (case py_int (fst item) of
       Inl _ \<Rightarrow> []
     | Inr chat \<Rightarrow> map (\<lambda>r. job_id_of chat (time r) (message r)) (reminders (snd item)))"

definition store_ids :: "store \<Rightarrow> string list" where
  "store_ids ud = concat (map item_ids ud)"

text \<open>
  The conversation \<open>/addreminder\<close> of one user: the time is sent, then the message.
\<close>

definition add_reminder :: "int \<Rightarrow> string \<Rightarrow> string \<Rightarrow> bot_state \<Rightarrow> bot_state" where
  "add_reminder user_id t msg s =
     snd (add_reminder_get_message \<lparr>from_user_id = user_id, message_text = msg, args = []\<rparr>
       (snd (add_reminder_get_time \<lparr>from_user_id = user_id, message_text = t, args = []\<rparr> s)))"

text \<open>A state for trying the handlers: user 7 has two reminders.\<close>

definition two_reminders :: bot_state where
  "two_reminders = installed\<lparr>user_data :=
     [(''7'', \<lparr>weights = [], reminders =
         [\<lparr>time = ''08:30'', message = ''Feed the dog''\<rparr>, \<lparr>time = ''20:00'', message = ''Walk''\<rparr>]\<rparr>)]\<rparr>"

text \<open>
  The argument of \<open>/deletereminder\<close> is missing or does not read as an integer.
\<close>

definition no_index :: "update \<Rightarrow> bool" where
  "no_index u = (case args u of
       [] \<Rightarrow> True
     | a # _ \<Rightarrow> (case py_int a of Inl _ \<Rightarrow> True | Inr _ \<Rightarrow> False))"

text \<open>Updates of user 7 for trying the handlers: a text, and the arguments of a command.\<close>

definition says :: "string \<Rightarrow> update" where
  "says t = \<lparr>from_user_id = 7, message_text = t, args = []\<rparr>"

definition command :: "string list \<Rightarrow> update" where
  "command as = \<lparr>from_user_id = 7, message_text = [], args = as\<rparr>"

text \<open>
  The date texts \<open>add_weight_get_date\<close> takes: in lower case the text is \<open>today\<close>, or
  \<open>strptime\<close> reads it with the format \<open>%Y-%m-%d\<close>.
\<close>

definition accepted_date :: "string \<Rightarrow> bool" where
  "accepted_date t = (lower t = ''today''
     \<or> (case strptime_Ymd (lower t) of Inl _ \<Rightarrow> False | Inr _ \<Rightarrow> True))"

text \<open>The weight texts \<open>add_weight_get_weight\<close> takes: \<open>float\<close> reads the first token.\<close>

definition accepted_weight :: "string \<Rightarrow> pyfloat option" where
  "accepted_weight t = (case split_ws t of
       [] \<Rightarrow> None
     | tok # _ \<Rightarrow> (case py_float tok of Inl _ \<Rightarrow> None | Inr w \<Rightarrow> Some w))"

text \<open>
  What holds of every store the bot builds: each key is the text of an integer as \<open>str\<close>
  writes it, and each reminder has a valid time.
\<close>

definition canonical_key :: "string \<Rightarrow> bool" where
  "canonical_key k = (case py_int k of Inl _ \<Rightarrow> False | Inr n \<Rightarrow> py_str n = k)"

definition wf_store :: "store \<Rightarrow> bool" where
  "wf_store ud = list_all (\<lambda>item. canonical_key (fst item)
       \<and> list_all (\<lambda>r. valid_time (time r)) (reminders (snd item))) ud"

text \<open>
  The invariant of the running bot: the store in memory and the store in the data file
  are well formed, a time kept by a conversation is valid, no two jobs share an
  identity, and every job has the identity of a reminder of the store.
\<close>

definition invariant :: "bot_state \<Rightarrow> bool" where
  "invariant s = (wf_store (user_data s)
     \<and> (case disk s of Absent \<Rightarrow> True | Content d \<Rightarrow> wf_store d | _ \<Rightarrow> False)
     \<and> (\<forall>v. case temp_reminder_time (contexts s v) of None \<Rightarrow> True | Some t \<Rightarrow> valid_time t)
     \<and> distinct (job_ids s)
     \<and> set (job_ids s) \<subseteq> set (store_ids (user_data s)))"

text \<open>A run for trying the process: user 7 adds a reminder, and the bot is restarted.\<close>

definition feed_the_dog :: "event list" where
  "feed_the_dog = [Add_reminder_get_time (says ''08:30''),
                   Add_reminder_get_message (says ''Feed the dog'')]"

section \<open>Basic facts\<close>

lemma is_digit_digit_char: "d < 10 \<Longrightarrow> is_digit (digit_char d)"
  by (simp add: is_digit_def digit_char_def)

lemma digit_val_digit_char: "d < 10 \<Longrightarrow> digit_val (digit_char d) = d"
  by (simp add: digit_val_def digit_char_def)

lemma is_digit_not_space: "is_digit c \<Longrightarrow> \<not> py_isspace c"
  by (auto simp: is_digit_def py_isspace_def Let_def)

lemma is_digit_not_underscore: "is_digit c \<Longrightarrow> c \<noteq> CHR ''_''"
  by (auto simp: is_digit_def)

lemma is_digit_not_sign: "is_digit c \<Longrightarrow> c \<noteq> CHR ''-'' \<and> c \<noteq> CHR ''+''"
  by (auto simp: is_digit_def)

lemma is_digit_not_colon: "is_digit c \<Longrightarrow> c \<noteq> CHR '':''"
  by (auto simp: is_digit_def)

lemma digits_of_all: "list_all is_digit (digits_of n)"
proof (induction n rule: digits_of.induct)
  case (1 n)
  show ?case
  proof (cases "n < 10")
    case True
    then show ?thesis by (subst digits_of.simps) (simp add: is_digit_digit_char)
  next
    case False
    with 1 show ?thesis by (subst digits_of.simps) (simp add: is_digit_digit_char)
  qed
qed

lemma digits_of_nonempty: "digits_of n \<noteq> []"
  by (subst digits_of.simps) simp

lemma digits_val_snoc:
  "digits_val (xs @ [c]) = (if is_digit c then 10 * digits_val xs + digit_val c else digits_val xs)"
  by (simp add: digits_val_def)

lemma digits_val_digits_of: "digits_val (digits_of n) = n"
proof (induction n rule: digits_of.induct)
  case (1 n)
  show ?case
  proof (cases "n < 10")
    case True
    then show ?thesis
      by (subst digits_of.simps) (simp add: digits_val_def is_digit_digit_char digit_val_digit_char)
  next
    case False
    with 1 show ?thesis
      by (subst digits_of.simps) (simp add: digits_val_snoc is_digit_digit_char digit_val_digit_char)
  qed
qed

lemma digitpart_digits: "xs \<noteq> [] \<Longrightarrow> list_all is_digit xs \<Longrightarrow> digitpart xs"
  by (induction xs rule: digitpart.induct) (auto simp: is_digit_not_underscore)

lemma strip_id: "xs \<noteq> [] \<Longrightarrow> \<not> py_isspace (hd xs) \<Longrightarrow> \<not> py_isspace (last xs) \<Longrightarrow> strip xs = xs"
proof -
  assume a: "xs \<noteq> []" "\<not> py_isspace (hd xs)" "\<not> py_isspace (last xs)"
  then have "dropWhile py_isspace xs = xs" by (cases xs) auto
  moreover have "dropWhile py_isspace (rev xs) = rev xs"
    using a by (cases "rev xs") (auto simp: last_rev hd_rev)
  ultimately show ?thesis by (simp add: strip_def)
qed

lemma strip_digits: "xs \<noteq> [] \<Longrightarrow> list_all is_digit xs \<Longrightarrow> strip xs = xs"
proof (rule strip_id)
  assume a: "xs \<noteq> []" "list_all is_digit xs"
  show "xs \<noteq> []" by fact
  from a have "is_digit (hd xs)" by (cases xs) auto
  then show "\<not> py_isspace (hd xs)" by (rule is_digit_not_space)
  from a have "is_digit (last xs)" by (simp add: list_all_iff)
  then show "\<not> py_isspace (last xs)" by (rule is_digit_not_space)
qed

lemma py_int_digits:
  assumes "xs \<noteq> []" "list_all is_digit xs"
  shows "py_int xs = Inr (int (digits_val xs))"
proof -
  obtain c cs where xs: "xs = c # cs" using assms(1) by (cases xs) auto
  with assms have "is_digit c" by simp
  then have "c \<noteq> CHR ''-''" "c \<noteq> CHR ''+''" using is_digit_not_sign by auto
  then show ?thesis
    using assms xs by (simp add: py_int_def strip_digits digitpart_digits del: digitpart.simps)
qed

lemma py_int_minus_digits:
  assumes "xs \<noteq> []" "list_all is_digit xs"
  shows "py_int (CHR ''-'' # xs) = Inr (- int (digits_val xs))"
proof -
  have "\<not> py_isspace CHR ''-''" by (simp add: py_isspace_def)
  moreover have "\<not> py_isspace (last xs)"
    using assms by (simp add: list_all_iff is_digit_not_space)
  ultimately have "strip (CHR ''-'' # xs) = CHR ''-'' # xs"
    using assms(1) by (intro strip_id) auto
  then show ?thesis using assms by (simp add: py_int_def digitpart_digits)
qed

lemma py_int_py_str: "py_int (py_str n) = Inr n"
  by (simp add: py_str_def py_int_digits py_int_minus_digits digits_of_all digits_of_nonempty
      digits_val_digits_of)

lemma py_str_inj: "py_str a = py_str b \<Longrightarrow> a = b"
  by (metis py_int_py_str sum.inject(2))

lemma py_str_no_underscore: "CHR ''_'' \<notin> set (py_str n)"
proof -
  have "\<And>k. CHR ''_'' \<notin> set (digits_of k)"
    using digits_of_all is_digit_not_underscore by (auto simp: list_all_iff)
  then show ?thesis by (simp add: py_str_def)
qed

lemma list6_cases:
  obtains "t = []" | a where "t = [a]" | a b where "t = [a, b]" | a b c where "t = [a, b, c]"
  | a b c d where "t = [a, b, c, d]" | a b c d e where "t = [a, b, c, d, e]"
  | a b c d e f r where "t = a # b # c # d # e # f # r"
  by (metis list.exhaust)

lemmas HM_defs = strptime_HM_def match_HM_def re_H_def re_M_def two_def one_def lit_def
  in_range_def

lemma not_digit_colon: "\<not> is_digit CHR '':''"
  by (simp add: is_digit_def)

lemma digit_val_le9: "is_digit c \<Longrightarrow> digit_val c \<le> 9"
  by (auto simp: is_digit_def digit_val_def)

lemma strptime_HM_valid:
  assumes "strptime_HM t = Inr (h, m)"
  shows "valid_time t"
proof (cases t rule: list6_cases)
  case 1
  with assms show ?thesis by (simp add: HM_defs)
next
  case (2 a)
  with assms show ?thesis by (simp add: HM_defs split: if_splits)
next
  case (3 a b)
  with assms show ?thesis by (auto simp add: HM_defs split: if_splits)
next
  case (4 a b c)
  with assms show ?thesis
    by (auto simp add: HM_defs valid_time_def field_ok_def digits_val_def not_digit_colon 
        dest: digit_val_le9 is_digit_not_colon split: if_splits)
next
  case (5 a b c d)
  with assms show ?thesis 
    by (auto simp add: HM_defs valid_time_def field_ok_def digits_val_def not_digit_colon 
        dest: digit_val_le9 is_digit_not_colon split: if_splits)
next
  case (6 a b c d e)
  with assms show ?thesis
    by (auto simp add: HM_defs valid_time_def field_ok_def digits_val_def not_digit_colon 
        dest: digit_val_le9 is_digit_not_colon split: if_splits)
next
  case (7 a b c d e f r)
  with assms show ?thesis
    by (auto simp add: HM_defs split: if_splits)
qed

lemma split_sep_nonempty: "split_sep c t \<noteq> []"
  by (induction t) (auto split: list.splits)

lemma split_sep_single: "split_sep c t = [b] \<Longrightarrow> t = b \<and> c \<notin> set b"
proof (induction t arbitrary: b)
  case Nil
  then show ?case by simp
next
  case (Cons x t)
  then show ?case by (auto simp: split_sep_nonempty split: if_splits list.splits)
qed

lemma split_sep_pair: "split_sep c t = [a, b] \<Longrightarrow> t = a @ c # b \<and> c \<notin> set a \<and> c \<notin> set b"
proof (induction t arbitrary: a)
  case Nil
  then show ?case by simp
next
  case (Cons x t)
  show ?case
  proof (cases "x = c")
    case True
    with Cons.prems have "a = []" "split_sep c t = [b]" by auto
    with True split_sep_single [of c t b] show ?thesis by simp
  next
    case False
    with Cons.prems obtain p where "a = x # p" "split_sep c t = [p, b]"
      by (auto split: list.splits)
    with Cons.IH [of p] False show ?thesis by simp
  qed
qed

lemma split_sep_append: "c \<notin> set a \<Longrightarrow> split_sep c (a @ c # b) = a # split_sep c b"
  by (induction a) (auto split: list.splits simp: split_sep_nonempty)

lemma split_sep_none: "c \<notin> set b \<Longrightarrow> split_sep c b = [b]"
  by (induction b) auto

lemma short_cases:
  assumes "f \<noteq> []" "length f \<le> 2"
  obtains a where "f = [a]" | a b where "f = [a, b]"
  using assms by (cases f; cases "tl f") auto

lemma valid_time_strptime_HM:
  assumes "valid_time t"
  shows "\<exists>h m. strptime_HM t = Inr (h, m)"
proof -
  from assms obtain hh mm where sp: "split_sep CHR '':'' t = [hh, mm]"
    and hh: "field_ok 23 hh" and mm: "field_ok 59 mm"
    by (auto simp: valid_time_def split: list.splits)
  from sp have t: "t = hh @ CHR '':'' # mm" using split_sep_pair by blast
  from hh have "hh \<noteq> []" "length hh \<le> 2" by (auto simp: field_ok_def)
  then show ?thesis
  proof (cases hh rule: short_cases)
    case (1 a)
    from mm have "mm \<noteq> []" "length mm \<le> 2" by (auto simp: field_ok_def)
    then show ?thesis
    proof (cases mm rule: short_cases)
      case (1 b)
      with \<open>hh = [a]\<close> t hh mm show ?thesis
        by (auto simp: HM_defs field_ok_def digits_val_def not_digit_colon)
    next
      case (2 b c)
      with \<open>hh = [a]\<close> t hh mm show ?thesis
        by (auto simp: HM_defs field_ok_def digits_val_def not_digit_colon)
    qed
  next
    case (2 a a')
    from mm have "mm \<noteq> []" "length mm \<le> 2" by (auto simp: field_ok_def)
    then show ?thesis
    proof (cases mm rule: short_cases)
      case (1 b)
      with \<open>hh = [a, a']\<close> t hh mm show ?thesis
        by (auto simp: HM_defs field_ok_def digits_val_def not_digit_colon is_digit_def digit_val_def)
    next
      case (2 b c)
      with \<open>hh = [a, a']\<close> t hh mm show ?thesis
        by (auto simp: HM_defs field_ok_def digits_val_def not_digit_colon is_digit_def digit_val_def)
    qed
  qed
qed

lemma valid_time_iff: "valid_time t \<longleftrightarrow> (\<exists>hm. strptime_HM t = Inr hm)"
  using valid_time_strptime_HM strptime_HM_valid by (metis surj_pair)

lemma strptime_HM_ValueError: "strptime_HM t = Inl e \<Longrightarrow> e = ValueError"
  by (auto simp: strptime_HM_def split: list.splits if_splits)

lemma field_ok_py_int: "field_ok hi f \<Longrightarrow> py_int f = Inr (int (digits_val f))"
  by (simp add: field_ok_def py_int_digits)

lemma valid_time_parse:
  assumes "valid_time t"
  shows "\<exists>h m. parse_hour_minute t = Inr (h, m) \<and> cron_trigger h m = Inr (h, m)"
proof -
  from assms obtain hh mm where sp: "split_sep CHR '':'' t = [hh, mm]"
    and hh: "field_ok 23 hh" and mm: "field_ok 59 mm"
    by (auto simp: valid_time_def split: list.splits)
  have "parse_hour_minute t = Inr (int (digits_val hh), int (digits_val mm))"
    using sp hh mm by (simp add: parse_hour_minute_def field_ok_py_int)
  moreover have "cron_trigger (int (digits_val hh)) (int (digits_val mm))
      = Inr (int (digits_val hh), int (digits_val mm))"
    using hh mm by (simp add: cron_trigger_def field_ok_def)
  ultimately show ?thesis by blast
qed

lemma valid_time_no_underscore: "valid_time t \<Longrightarrow> CHR ''_'' \<notin> set t"
proof -
  assume "valid_time t"
  then obtain hh mm where sp: "split_sep CHR '':'' t = [hh, mm]"
    and hh: "field_ok 23 hh" and mm: "field_ok 59 mm"
    by (auto simp: valid_time_def split: list.splits)
  from sp have t: "t = hh @ CHR '':'' # mm" using split_sep_pair by blast
  from hh mm have "CHR ''_'' \<notin> set hh" "CHR ''_'' \<notin> set mm"
    using is_digit_not_underscore by (auto simp: field_ok_def list_all_iff)
  with t show ?thesis by simp
qed

lemma valid_time_nonempty: "valid_time t \<Longrightarrow> t \<noteq> []"
  by (auto simp: valid_time_def)

lemma logger_fields [simp]:
  "user_data (logger lv l s) = user_data s"
  "jobs (logger lv l s) = jobs s"
  "disk (logger lv l s) = disk s"
  "disk_writable (logger lv l s) = disk_writable s"
  "contexts (logger lv l s) = contexts s"
  "sent (logger lv l s) = sent s"
  "logged (logger lv l s) = logged s @ [(lv, l)]"
  by (simp_all add: logger_def)

lemma reply_text_fields [simp]:
  "user_data (reply_text u r s) = user_data s"
  "jobs (reply_text u r s) = jobs s"
  "disk (reply_text u r s) = disk s"
  "disk_writable (reply_text u r s) = disk_writable s"
  "contexts (reply_text u r s) = contexts s"
  "sent (reply_text u r s) = sent s @ [(from_user_id u, r)]"
  "logged (reply_text u r s) = logged s"
  by (simp_all add: reply_text_def)

lemma set_context_fields [simp]:
  "user_data (set_context v c s) = user_data s"
  "jobs (set_context v c s) = jobs s"
  "disk (set_context v c s) = disk s"
  "disk_writable (set_context v c s) = disk_writable s"
  "contexts (set_context v c s) = (contexts s)(v := c)"
  "sent (set_context v c s) = sent s"
  "logged (set_context v c s) = logged s"
  by (simp_all add: set_context_def)

lemma set_user_data_fields [simp]:
  "user_data (set_user_data v d s) = AList.update (py_str v) d (user_data s)"
  "jobs (set_user_data v d s) = jobs s"
  "disk (set_user_data v d s) = disk s"
  "disk_writable (set_user_data v d s) = disk_writable s"
  "contexts (set_user_data v d s) = contexts s"
  "sent (set_user_data v d s) = sent s"
  "logged (set_user_data v d s) = logged s"
  by (simp_all add: set_user_data_def)

lemma save_data_fields [simp]:
  "user_data (save_data s) = user_data s"
  "jobs (save_data s) = jobs s"
  "disk (save_data s) = (if disk_writable s then Content (user_data s) else disk s)"
  "disk_writable (save_data s) = disk_writable s"
  "contexts (save_data s) = contexts s"
  "sent (save_data s) = sent s"
  by (simp_all add: save_data_def)

lemma update_absent: "map_of al k = None \<Longrightarrow> AList.update k v al = al @ [(k, v)]"
  by (induction al) (auto split: if_splits)

lemma get_user_data_fields [simp]:
  "jobs (snd (get_user_data v s)) = jobs s"
  "disk (snd (get_user_data v s)) = disk s"
  "disk_writable (snd (get_user_data v s)) = disk_writable s"
  "contexts (snd (get_user_data v s)) = contexts s"
  "sent (snd (get_user_data v s)) = sent s"
  "logged (snd (get_user_data v s)) = logged s"
  by (simp_all add: get_user_data_def split: option.splits)

lemma get_user_data_fst: "fst (get_user_data v s) = record_of v s"
  by (simp add: get_user_data_def record_of_def split: option.splits)

lemma get_user_data_store:
  "user_data (snd (get_user_data v s)) =
     (if map_of (user_data s) (py_str v) = None then user_data s @ [(py_str v, empty_record)]
      else user_data s)"
  by (auto simp: get_user_data_def update_absent split: option.splits)

lemma get_user_data_known:
  "map_of (user_data s) (py_str v) = Some d \<Longrightarrow> get_user_data v s = (d, s)"
  by (simp add: get_user_data_def)

lemma get_user_data_record_of [simp]: "record_of w (snd (get_user_data v s)) = record_of w s"
  by (auto simp: get_user_data_def record_of_def update_conv' empty_record_def
      split: option.splits)

lemma get_user_data_lookup:
  "map_of (user_data (snd (get_user_data v s))) (py_str v) = Some (record_of v s)"
  by (auto simp: get_user_data_def record_of_def update_conv' split: option.splits)

lemma record_of_update:
  "record_of w (s\<lparr>user_data := AList.update (py_str v) d (user_data s)\<rparr>) =
     (if w = v then d else record_of w s)"
  by (auto simp: record_of_def update_conv' dest: py_str_inj)

lemma record_of_cong: "user_data s = user_data s' \<Longrightarrow> record_of w s = record_of w s'"
  by (simp add: record_of_def)

lemma delete_reminder_split:
  "delete_reminder u s =
     (case args u of
        [] \<Rightarrow> (Inr (), reply_text u Specify_number (snd (get_user_data (from_user_id u) s)))
      | a # _ \<Rightarrow>
          (case py_int a of
             Inl e \<Rightarrow> (Inr (), if e = ValueError
                 then reply_text u Invalid_input (snd (get_user_data (from_user_id u) s))
                 else reply_text u Delete_failed
                        (logger ERROR Error_deleting (snd (get_user_data (from_user_id u) s))))
           | Inr n \<Rightarrow>
               if 1 \<le> n \<and> n \<le> int (length (reminders (record_of (from_user_id u) s)))
               then (Inr (), delete_at (nat (n - 1)) (record_of (from_user_id u) s) u
                               (snd (get_user_data (from_user_id u) s)))
               else (Inr (), reply_text u Invalid_number (snd (get_user_data (from_user_id u) s)))))"
proof -
  obtain d s1 where g: "get_user_data (from_user_id u) s = (d, s1)" by (cases "get_user_data (from_user_id u) s")
  then have d: "d = record_of (from_user_id u) s" using get_user_data_fst [of "from_user_id u" s] by simp
  show ?thesis
    by (auto simp: delete_reminder_def g d split: list.splits sum.splits)
qed

lemma py_int_ValueError: "py_int a = Inl e \<Longrightarrow> e = ValueError"
  by (auto simp: py_int_def split: list.splits if_splits)

lemma remove_reminder_job_fields [simp]:
  "user_data (snd (remove_reminder_job i s)) = user_data s"
  "disk (snd (remove_reminder_job i s)) = disk s"
  "disk_writable (snd (remove_reminder_job i s)) = disk_writable s"
  "contexts (snd (remove_reminder_job i s)) = contexts s"
  "sent (snd (remove_reminder_job i s)) = sent s"
  by (simp_all add: remove_reminder_job_def remove_job_def split: option.splits)

lemma remove_reminder_job_jobs:
  "jobs (snd (remove_reminder_job i s)) = filter (\<lambda>k. job_id k \<noteq> i) (jobs s)"
proof (cases "get_job i s")
  case None
  then have "\<forall>k \<in> set (jobs s). job_id k \<noteq> i"
    by (simp add: get_job_def find_None_iff)
  then have "filter (\<lambda>k. job_id k \<noteq> i) (jobs s) = jobs s" by simp
  with None show ?thesis by (simp add: remove_reminder_job_def remove_job_def)
next
  case (Some j)
  then show ?thesis by (simp add: remove_reminder_job_def remove_job_def)
qed

lemma delete_at_fields:
  assumes "i < length (reminders d)"
  shows "user_data (delete_at i d u s) =
           AList.update (py_str (from_user_id u))
             (d\<lparr>reminders := take i (reminders d) @ drop (Suc i) (reminders d)\<rparr>) (user_data s)"
    and "jobs (delete_at i d u s) =
           filter (\<lambda>k. job_id k \<noteq> job_id_of (from_user_id u) (time (reminders d ! i))
                                     (message (reminders d ! i))) (jobs s)"
    and "disk (delete_at i d u s) = (if disk_writable s then Content (user_data (delete_at i d u s)) else disk s)"
    and "disk_writable (delete_at i d u s) = disk_writable s"
    and "contexts (delete_at i d u s) = contexts s"
    and "sent (delete_at i d u s) = sent s @ [(from_user_id u,
            Reminder_deleted (message (reminders d ! i)) (time (reminders d ! i)))]"
  using assms by (simp_all add: delete_at_def pop_def remove_reminder_job_jobs)

section \<open>Claims\<close>

text \<open>
  C5. For a user whose reminder list has \<open>n\<close> entries and an argument that reads as
  \<open>k\<close> with \<open>1 \<le> k \<le> n\<close>, \<open>delete_reminder\<close> removes exactly the \<open>k\<close>-th entry: the
  entries before it keep their positions, the entries after it move up by one, the list
  is one shorter, and the weights of the user and the records of all other users are as
  before.
\<close>

theorem delete_reminder_position:
  assumes "args u = a # rest" and "py_int a = Inr k"
    and "1 \<le> k" and "k \<le> int (length (reminders (record_of (from_user_id u) s)))"
  shows "let rs = reminders (record_of (from_user_id u) s);
             s' = snd (delete_reminder u s);
             rs' = reminders (record_of (from_user_id u) s');
             i = nat (k - 1)
         in fst (delete_reminder u s) = Inr ()
          \<and> rs' = take i rs @ drop (Suc i) rs
          \<and> length rs' = length rs - 1
          \<and> (\<forall>j. j < i \<longrightarrow> rs' ! j = rs ! j)
          \<and> (\<forall>j. i \<le> j \<and> j < length rs' \<longrightarrow> rs' ! j = rs ! Suc j)
          \<and> weights (record_of (from_user_id u) s') = weights (record_of (from_user_id u) s)
          \<and> (\<forall>v. v \<noteq> from_user_id u \<longrightarrow> record_of v s' = record_of v s)"
proof -
  define uid where "uid = from_user_id u"
  define d where "d = record_of uid s"
  define i where "i = nat (k - 1)"
  define s1 where "s1 = snd (get_user_data uid s)"
  define rs where "rs = reminders d"
  have i: "i < length rs" using assms(3,4) by (simp add: i_def rs_def d_def uid_def)
  have del: "delete_reminder u s = (Inr (), delete_at i d u s1)"
    using assms by (simp add: delete_reminder_split i_def d_def s1_def uid_def)
  have ud: "user_data (delete_at i d u s1) =
      AList.update (py_str uid) (d\<lparr>reminders := take i rs @ drop (Suc i) rs\<rparr>) (user_data s1)"
    using i by (simp add: delete_at_fields rs_def uid_def)
  have rec: "record_of v (delete_at i d u s1) =
      (if v = uid then d\<lparr>reminders := take i rs @ drop (Suc i) rs\<rparr> else record_of v s)" for v
  proof -
    have "record_of v (delete_at i d u s1) =
        record_of v (s1\<lparr>user_data := AList.update (py_str uid)
            (d\<lparr>reminders := take i rs @ drop (Suc i) rs\<rparr>) (user_data s1)\<rparr>)"
      by (rule record_of_cong) (simp add: ud)
    then show ?thesis by (simp add: record_of_update s1_def)
  qed
  have len: "length (take i rs @ drop (Suc i) rs) = length rs - 1" using i by simp
  have low: "(take i rs @ drop (Suc i) rs) ! j = rs ! j" if "j < i" for j
    using that i by (simp add: nth_append)
  have high: "(take i rs @ drop (Suc i) rs) ! j = rs ! Suc j"
    if "i \<le> j" "j < length (take i rs @ drop (Suc i) rs)" for j
  proof -
    have "(take i rs @ drop (Suc i) rs) ! j = drop (Suc i) rs ! (j - i)"
      using that i by (simp add: nth_append)
    also have "\<dots> = rs ! (Suc i + (j - i))" using that i by (intro nth_drop) simp
    finally show ?thesis using that by simp
  qed
  show ?thesis
    unfolding Let_def del snd_conv fst_conv uid_def [symmetric] d_def [symmetric]
      i_def [symmetric] rec
    using len low high by (simp add: rs_def d_def)
qed


lemma py_str_7: "py_str 7 = ''7''"
  by code_simp

lemma py_int_1: "py_int ''1'' = Inr 1"
  by (simp add: py_int_def strip_def py_isspace_def is_digit_def digits_val_def digit_val_def)

theorem delete_reminder_position_witness:
  "args \<lparr>from_user_id = 7, message_text = [], args = [''1'']\<rparr> = ''1'' # []
   \<and> py_int ''1'' = Inr 1
   \<and> (1::int) \<le> 1
   \<and> 1 \<le> int (length (reminders (record_of 7 two_reminders)))
   \<and> reminders (record_of 7 (snd (delete_reminder
         \<lparr>from_user_id = 7, message_text = [], args = [''1'']\<rparr> two_reminders)))
       = [\<lparr>time = ''20:00'', message = ''Walk''\<rparr>]"
proof -
  have r: "record_of 7 two_reminders = \<lparr>weights = [], reminders =
         [\<lparr>time = ''08:30'', message = ''Feed the dog''\<rparr>, \<lparr>time = ''20:00'', message = ''Walk''\<rparr>]\<rparr>"
    by (simp add: record_of_def two_reminders_def py_str_7)
  show ?thesis
    using delete_reminder_position [of "\<lparr>from_user_id = 7, message_text = [], args = [''1'']\<rparr>"
        "''1''" "[]" 1 two_reminders]
    by (simp add: py_int_1 r Let_def)
qed

lemma not_valid_time_25: "\<not> valid_time ''25:00''"
  by (simp add: valid_time_def field_ok_def is_digit_def digits_val_def digit_val_def)

lemma hh_mm_valid_time: "hh_mm t \<Longrightarrow> valid_time t"
  by (auto simp: hh_mm_def valid_time_def two_digits_def field_ok_def split: list.splits)

lemma hh_mm_0830: "hh_mm ''08:30''"
  by (simp add: hh_mm_def two_digits_def is_digit_def digits_val_def digit_val_def)

text \<open>
  C3 as stated fails for a time text with a one-digit field: \<open>8:5\<close> is not of the form
  \<open>HH:MM\<close>, and the conversation takes it, goes on to ask for the message, appends the
  reminder with the time as typed, saves it and schedules its job.
\<close>

theorem add_reminder_time_counterexample:
  "\<not> hh_mm ''8:5''
   \<and> fst (add_reminder_get_time (says ''8:5'') (run [])) = Inr GET_REMINDER_MESSAGE
   \<and> user_data (run []) = []
   \<and> user_data (add_reminder 7 ''8:5'' ''Walk'' (run [])) =
       [(''7'', \<lparr>weights = [], reminders = [\<lparr>time = ''8:5'', message = ''Walk''\<rparr>]\<rparr>)]
   \<and> disk (add_reminder 7 ''8:5'' ''Walk'' (run [])) =
       Content [(''7'', \<lparr>weights = [], reminders = [\<lparr>time = ''8:5'', message = ''Walk''\<rparr>]\<rparr>)]
   \<and> job_ids (run []) = []
   \<and> job_ids (add_reminder 7 ''8:5'' ''Walk'' (run [])) = [''reminder_7_8:5_Walk'']"
  by code_simp

text \<open>
  C3, amended. \<open>add_reminder_get_time\<close> refuses exactly the time texts that
  \<open>strptime\<close> does not read with \<open>%H:%M\<close>, those that are not an hour of one or two digits
  up to 23, a colon and a minute of one or two digits up to 59 (\<open>25:00\<close> for one): it
  answers with the invalid-time-format message and stays in the state
  \<open>GET_REMINDER_TIME\<close>, with the pending conversation data as before. Every other text,
  so every text of the form \<open>HH:MM\<close> and also one with a one-digit field, it takes: it
  keeps the text as typed for the conversation, asks for the message and goes to the
  state \<open>GET_REMINDER_MESSAGE\<close>. Either way the store, the data file and the jobs are as
  before: no reminder is appended, nothing is saved and no job is created by this
  handler.
\<close>

theorem add_reminder_invalid_time:
  "(if valid_time (message_text u)
    then add_reminder_get_time u s =
           (Inr GET_REMINDER_MESSAGE,
            reply_text u Ask_message
              (set_context (from_user_id u)
                 ((contexts s (from_user_id u))\<lparr>temp_reminder_time := Some (message_text u)\<rparr>) s))
    else add_reminder_get_time u s = (Inr GET_REMINDER_TIME, reply_text u Invalid_time_format s)
       \<and> contexts (snd (add_reminder_get_time u s)) = contexts s
       \<and> sent (snd (add_reminder_get_time u s)) = sent s @ [(from_user_id u, Invalid_time_format)])
   \<and> user_data (snd (add_reminder_get_time u s)) = user_data s
   \<and> disk (snd (add_reminder_get_time u s)) = disk s
   \<and> jobs (snd (add_reminder_get_time u s)) = jobs s
   \<and> (hh_mm (message_text u) \<longrightarrow> valid_time (message_text u))"
proof (cases "valid_time (message_text u)")
  case True
  then obtain hm where "strptime_HM (message_text u) = Inr hm"
    using valid_time_iff by blast
  then have "add_reminder_get_time u s =
           (Inr GET_REMINDER_MESSAGE,
            reply_text u Ask_message
              (set_context (from_user_id u)
                 ((contexts s (from_user_id u))\<lparr>temp_reminder_time := Some (message_text u)\<rparr>) s))"
    by (simp add: add_reminder_get_time_def)
  with True show ?thesis by simp
next
  case False
  then obtain e where "strptime_HM (message_text u) = Inl e"
    using valid_time_iff by (cases "strptime_HM (message_text u)") auto
  moreover from this have "e = ValueError" by (rule strptime_HM_ValueError)
  ultimately have "add_reminder_get_time u s = (Inr GET_REMINDER_TIME, reply_text u Invalid_time_format s)"
    by (simp add: add_reminder_get_time_def)
  with False show ?thesis using hh_mm_valid_time [of "message_text u"] by auto
qed

theorem add_reminder_invalid_time_witness:
  "\<not> valid_time ''25:00''
   \<and> fst (add_reminder_get_time (says ''25:00'') two_reminders) = Inr GET_REMINDER_TIME
   \<and> user_data (snd (add_reminder_get_time (says ''25:00'') two_reminders)) = user_data two_reminders
   \<and> jobs (snd (add_reminder_get_time (says ''25:00'') two_reminders)) = []
   \<and> hh_mm ''08:30''
   \<and> valid_time ''08:30''
   \<and> fst (add_reminder_get_time (says ''08:30'') two_reminders) = Inr GET_REMINDER_MESSAGE
   \<and> jobs (snd (add_reminder_get_time (says ''08:30'') two_reminders)) = []"
proof -
  note a = add_reminder_invalid_time [of "says ''25:00''" two_reminders]
  note b = add_reminder_invalid_time [of "says ''08:30''" two_reminders]
  have m: "message_text (says t) = t" for t by (simp add: says_def)
  have j: "jobs two_reminders = []" by (simp add: two_reminders_def installed_def)
  have v: "valid_time ''08:30''" using b hh_mm_0830 by (simp add: m)
  have "fst (add_reminder_get_time (says ''25:00'') two_reminders) = Inr GET_REMINDER_TIME"
    using a not_valid_time_25 by (simp add: m)
  moreover have "fst (add_reminder_get_time (says ''08:30'') two_reminders) = Inr GET_REMINDER_MESSAGE"
    using b v by (simp add: m)
  ultimately show ?thesis using a b v hh_mm_0830 not_valid_time_25 by (simp add: m j)
qed

text \<open>
  C4 as stated fails for a user the store does not know: the handler looks the user up
  with \<open>get_user_data\<close> first, which stores an empty record.
\<close>

theorem delete_reminder_range_counterexample:
  "reminders (record_of 7 installed) = []
   \<and> py_int ''1'' = Inr 1
   \<and> sent (snd (delete_reminder (command [''1'']) installed)) = [(7, Invalid_number)]
   \<and> user_data installed = []
   \<and> user_data (snd (delete_reminder (command [''1'']) installed))
       = [(''7'', \<lparr>weights = [], reminders = []\<rparr>)]"
  by (simp add: delete_reminder_split command_def py_int_1 record_of_def installed_def
      empty_record_def get_user_data_store py_str_7)

text \<open>
  C4, amended. For a user with \<open>n\<close> reminders and an argument that reads as an integer
  outside \<open>[1, n]\<close>, \<open>delete_reminder\<close> answers with the invalid-number message and
  returns normally; the jobs and the data file are as before and so is the record of
  every user. The store is as before for a user it knows; for a user it does not know
  it gains the empty record of that user.
\<close>

theorem delete_reminder_out_of_range:
  assumes "args u = a # rest" and "py_int a = Inr k"
    and "k < 1 \<or> int (length (reminders (record_of (from_user_id u) s))) < k"
  shows "fst (delete_reminder u s) = Inr ()
       \<and> sent (snd (delete_reminder u s)) = sent s @ [(from_user_id u, Invalid_number)]
       \<and> jobs (snd (delete_reminder u s)) = jobs s
       \<and> disk (snd (delete_reminder u s)) = disk s
       \<and> (\<forall>v. record_of v (snd (delete_reminder u s)) = record_of v s)
       \<and> user_data (snd (delete_reminder u s)) =
           (if map_of (user_data s) (py_str (from_user_id u)) = None
            then user_data s @ [(py_str (from_user_id u), empty_record)]
            else user_data s)"
proof -
  have "delete_reminder u s =
      (Inr (), reply_text u Invalid_number (snd (get_user_data (from_user_id u) s)))"
    using assms by (auto simp: delete_reminder_split)
  then show ?thesis
    by (simp add: get_user_data_store record_of_cong [of "reply_text u r x" x for r x])
qed

theorem delete_reminder_out_of_range_witness:
  "args (command [''0'']) = ''0'' # []
   \<and> py_int ''0'' = Inr 0
   \<and> (0::int) < 1
   \<and> user_data (snd (delete_reminder (command [''0'']) two_reminders)) = user_data two_reminders
   \<and> jobs (snd (delete_reminder (command [''0'']) two_reminders)) = jobs two_reminders"
proof -
  have z: "py_int ''0'' = Inr 0"
    by (simp add: py_int_def strip_def py_isspace_def is_digit_def digits_val_def digit_val_def)
  have k: "map_of (user_data two_reminders) (py_str (from_user_id (command [''0'']))) \<noteq> None"
    by (simp add: two_reminders_def command_def py_str_7)
  show ?thesis
    using delete_reminder_out_of_range [of "command [''0'']" "''0''" "[]" 0 two_reminders] k
    by (simp add: z command_def)
qed

text \<open>
  C10 as stated fails for a user the store does not know: \<open>get_user_data\<close> stores an
  empty record before the argument is looked at.
\<close>

theorem delete_reminder_no_index_counterexample:
  "no_index (command [''abc''])
   \<and> sent (snd (delete_reminder (command [''abc'']) installed)) = [(7, Invalid_input)]
   \<and> user_data installed = []
   \<and> user_data (snd (delete_reminder (command [''abc'']) installed))
       = [(''7'', \<lparr>weights = [], reminders = []\<rparr>)]"
proof -
  have e: "py_int ''abc'' = Inl ValueError"
    by (simp add: py_int_def strip_def py_isspace_def is_digit_def)
  show ?thesis
    by (simp add: no_index_def delete_reminder_split command_def e installed_def
        empty_record_def get_user_data_store py_str_7)
qed

text \<open>
  C10, amended. When the argument of \<open>/deletereminder\<close> is missing or does not read as
  an integer, \<open>delete_reminder\<close> returns normally and answers with the
  specify-a-number or the invalid-input message; the jobs and the data file are as
  before and so is the record of every user: the argument is read before any reminder
  is removed, the data is saved or a job is removed. The store is as before for a user
  it knows; for a user it does not know it gains the empty record of that user.
\<close>

theorem delete_reminder_no_index:
  assumes "no_index u"
  shows "fst (delete_reminder u s) = Inr ()
       \<and> sent (snd (delete_reminder u s)) =
           sent s @ [(from_user_id u, if args u = [] then Specify_number else Invalid_input)]
       \<and> jobs (snd (delete_reminder u s)) = jobs s
       \<and> disk (snd (delete_reminder u s)) = disk s
       \<and> logged (snd (delete_reminder u s)) = logged s
       \<and> (\<forall>v. record_of v (snd (delete_reminder u s)) = record_of v s)
       \<and> user_data (snd (delete_reminder u s)) =
           (if map_of (user_data s) (py_str (from_user_id u)) = None
            then user_data s @ [(py_str (from_user_id u), empty_record)]
            else user_data s)"
proof (cases "args u")
  case Nil
  then have "delete_reminder u s =
      (Inr (), reply_text u Specify_number (snd (get_user_data (from_user_id u) s)))"
    by (simp add: delete_reminder_split)
  with Nil show ?thesis
    by (simp add: get_user_data_store record_of_cong [of "reply_text u r x" x for r x])
next
  case (Cons a rest)
  with assms obtain e where "py_int a = Inl e"
    by (auto simp: no_index_def split: sum.splits)
  moreover from this have "e = ValueError" by (rule py_int_ValueError)
  ultimately have "delete_reminder u s =
      (Inr (), reply_text u Invalid_input (snd (get_user_data (from_user_id u) s)))"
    using Cons by (simp add: delete_reminder_split)
  with Cons show ?thesis
    by (simp add: get_user_data_store record_of_cong [of "reply_text u r x" x for r x])
qed

theorem delete_reminder_no_index_witness:
  "no_index (command [])
   \<and> fst (delete_reminder (command []) two_reminders) = Inr ()
   \<and> user_data (snd (delete_reminder (command []) two_reminders)) = user_data two_reminders
   \<and> jobs (snd (delete_reminder (command []) two_reminders)) = jobs two_reminders"
proof -
  have k: "map_of (user_data two_reminders) (py_str (from_user_id (command []))) \<noteq> None"
    by (simp add: two_reminders_def command_def py_str_7)
  have n: "no_index (command [])" by (simp add: no_index_def command_def)
  show ?thesis
    using delete_reminder_no_index [OF n, of two_reminders] k n by simp
qed

lemma enumerate_numbered:
  "map (\<lambda>(i, r). (i + 1, r)) (List.enumerate 0 xs) = zip [1..<Suc (length xs)] xs"
proof -
  have "map (\<lambda>(i, r). (i + 1, r)) (zip [0..<length xs] xs) = zip (map Suc [0..<length xs]) xs"
    by (simp add: zip_map1 case_prod_unfold)
  then show ?thesis by (simp add: enumerate_eq_zip map_Suc_upt)
qed

lemma enumerate_numbered_Suc:
  "map (\<lambda>(i, r). (Suc i, r)) (List.enumerate 0 xs) = zip [Suc 0..<Suc (length xs)] xs"
  using enumerate_numbered [of xs] by simp

lemma list_reminders_eq:
  "list_reminders u s =
     (Inr (), reply_text u
        (if reminders (record_of (from_user_id u) s) = [] then No_reminders
         else Reminder_list (zip [1..<Suc (length (reminders (record_of (from_user_id u) s)))]
                 (reminders (record_of (from_user_id u) s))))
        (snd (get_user_data (from_user_id u) s)))"
proof -
  obtain d s1 where g: "get_user_data (from_user_id u) s = (d, s1)"
    by (cases "get_user_data (from_user_id u) s")
  then have d: "d = record_of (from_user_id u) s"
    using get_user_data_fst [of "from_user_id u" s] by simp
  show ?thesis by (simp add: list_reminders_def g d enumerate_numbered_Suc del: upt_Suc)
qed

lemma view_weights_eq:
  "view_weights u s =
     (Inr (), reply_text u
        (if weights (record_of (from_user_id u) s) = [] then No_weights
         else Weight_history (sort_key date (weights (record_of (from_user_id u) s))))
        (snd (get_user_data (from_user_id u) s)))"
proof -
  obtain d s1 where g: "get_user_data (from_user_id u) s = (d, s1)"
    by (cases "get_user_data (from_user_id u) s")
  then have d: "d = record_of (from_user_id u) s"
    using get_user_data_fst [of "from_user_id u" s] by simp
  show ?thesis by (simp add: view_weights_def g d)
qed




lemma load_data_unreadable: "disk s = Unreadable \<Longrightarrow> load_data s = (Inl OSError, s)"
  by (simp add: load_data_def)

lemma load_data_undecodable: "disk s = Undecodable \<Longrightarrow> load_data s = (Inl UnicodeDecodeError, s)"
  by (simp add: load_data_def)

lemma load_data_too_deep: "disk s = Too_deep \<Longrightarrow> load_data s = (Inl RecursionError, s)"
  by (simp add: load_data_def)

text \<open>
  C6 as stated fails for an absent data file: \<open>load_data\<close> logs at level INFO, not a
  warning.
\<close>

theorem load_data_counterexample:
  "disk installed = Absent
   \<and> fst (load_data installed) = Inr []
   \<and> logged (snd (load_data installed)) = [(INFO, Data_not_found)]
   \<and> WARNING \<noteq> INFO"
  by (simp add: load_data_def installed_def)

text \<open>
  C6, amended. For a data file that is absent, \<open>load_data\<close> returns the current
  \<open>user_data\<close> unchanged (the empty dictionary at the start of the process) and logs one
  INFO line; for a data file that opens and reads as text which the JSON parser refuses
  with \<open>json.JSONDecodeError\<close>, it installs and returns the empty dictionary and logs one
  warning. In both cases it raises nothing and touches neither the file nor the jobs.
  (Of the other files that are not valid JSON the amended claim says nothing: for one
  that cannot be opened, one whose bytes are not text and one nested too deep,
  \<open>load_data\<close> raises, by the three lemmas above.)
\<close>

theorem load_data_soft:
  assumes "disk s = Absent \<or> disk s = Malformed"
  shows "fst (load_data s) = Inr (if disk s = Absent then user_data s else [])
       \<and> user_data (snd (load_data s)) = (if disk s = Absent then user_data s else [])
       \<and> logged (snd (load_data s)) =
           logged s @ [if disk s = Absent then (INFO, Data_not_found) else (WARNING, Data_corrupt)]
       \<and> disk (snd (load_data s)) = disk s
       \<and> jobs (snd (load_data s)) = jobs s
       \<and> fst (load_data (process_start s)) = Inr []
       \<and> user_data (snd (load_data (process_start s))) = []"
  using assms by (auto simp: load_data_def process_start_def)

theorem load_data_soft_witness:
  "(disk (installed\<lparr>disk := Malformed\<rparr>) = Malformed)
   \<and> fst (load_data (installed\<lparr>disk := Malformed\<rparr>)) = Inr []
   \<and> logged (snd (load_data (installed\<lparr>disk := Malformed\<rparr>))) = [(WARNING, Data_corrupt)]"
  using load_data_soft [of "installed\<lparr>disk := Malformed\<rparr>"]
  by (simp add: installed_def)

lemma replace_space_feed: "replace_space ''feed dog'' = ''feed_dog'' \<and> replace_space ''feed_dog'' = ''feed_dog''"
  by (simp add: replace_space_def)

text \<open>
  C9 as stated fails: a message with a space and the message with an underscore in its
  place are different texts with one identity.
\<close>

theorem job_id_counterexample:
  "''feed dog'' \<noteq> ''feed_dog''
   \<and> job_id_of 7 ''08:30'' ''feed dog'' = job_id_of 7 ''08:30'' ''feed_dog''"
  by (simp add: job_id_of_def replace_space_def)

lemma append_sep_eq:
  assumes "c \<notin> set a" "c \<notin> set b" "a @ c # x = b @ c # y"
  shows "a = b \<and> x = y"
  using assms
proof (induction a arbitrary: b)
  case Nil
  then show ?case by (cases b) auto
next
  case (Cons h a)
  then show ?case by (cases b) auto
qed

text \<open>
  C9, amended. For times that pass the validation, two triples have the same identity
  exactly when they have the same recipient, the same time and messages that are equal
  once every space is replaced by an underscore; in particular equal triples have equal
  identities, and triples that differ in the recipient, in the time, or in the message
  by more than spaces against underscores have different ones.
\<close>

theorem job_id_injective:
  assumes "valid_time t1" and "valid_time t2"
  shows "job_id_of c1 t1 m1 = job_id_of c2 t2 m2
         \<longleftrightarrow> c1 = c2 \<and> t1 = t2 \<and> replace_space m1 = replace_space m2"
proof
  assume eq: "job_id_of c1 t1 m1 = job_id_of c2 t2 m2"
  then have e1: "py_str c1 @ CHR ''_'' # (t1 @ CHR ''_'' # replace_space m1)
               = py_str c2 @ CHR ''_'' # (t2 @ CHR ''_'' # replace_space m2)"
    by (simp add: job_id_of_def)
  have "py_str c1 = py_str c2 \<and> t1 @ CHR ''_'' # replace_space m1 = t2 @ CHR ''_'' # replace_space m2"
    by (rule append_sep_eq [OF py_str_no_underscore py_str_no_underscore e1])
  moreover from this have "t1 = t2 \<and> replace_space m1 = replace_space m2"
    using append_sep_eq [OF valid_time_no_underscore [OF assms(1)] valid_time_no_underscore [OF assms(2)]]
    by blast
  ultimately show "c1 = c2 \<and> t1 = t2 \<and> replace_space m1 = replace_space m2"
    using py_str_inj by blast
next
  assume "c1 = c2 \<and> t1 = t2 \<and> replace_space m1 = replace_space m2"
  then show "job_id_of c1 t1 m1 = job_id_of c2 t2 m2" by (simp add: job_id_of_def)
qed

lemma valid_time_0830: "valid_time ''08:30''"
  by (simp add: valid_time_def field_ok_def is_digit_def digits_val_def digit_val_def)

lemma valid_time_2000: "valid_time ''20:00''"
  by (simp add: valid_time_def field_ok_def is_digit_def digits_val_def digit_val_def)

theorem job_id_injective_witness:
  "valid_time ''08:30'' \<and> valid_time ''20:00''
   \<and> job_id_of 7 ''08:30'' ''Feed the dog'' \<noteq> job_id_of 7 ''20:00'' ''Feed the dog''"
  using job_id_injective [OF valid_time_0830 valid_time_2000, of 7 "''Feed the dog''" 7 "''Feed the dog''"]
  by (simp add: valid_time_0830 valid_time_2000)

lemma py_float_ValueError: "py_float t = Inl e \<Longrightarrow> e = ValueError"
  by (auto simp: py_float_def Let_def split: if_splits option.splits)

lemma strptime_Ymd_ValueError: "strptime_Ymd t = Inl e \<Longrightarrow> e = ValueError"
  by (auto simp: strptime_Ymd_def split: list.splits if_splits)

lemma weight_date_ValueError: "weight_date today t = Inl e \<Longrightarrow> e = ValueError"
  by (auto simp: weight_date_def dest: strptime_Ymd_ValueError split: if_splits sum.splits)

lemma weight_date_accepted:
  "accepted_date t \<longleftrightarrow>
     weight_date today (lower t) = Inr (if lower t = ''today'' then today else lower t)"
  by (auto simp: accepted_date_def weight_date_def split: sum.splits)

lemma add_weight_get_weight_accepts:
  "accepted_weight (message_text u) = Some w \<Longrightarrow>
     add_weight_get_weight u s = (Inr GET_WEIGHT_DATE,
       reply_text u Ask_date
         (set_context (from_user_id u) ((contexts s (from_user_id u))\<lparr>temp_weight := Some w\<rparr>) s))"
  by (auto simp: accepted_weight_def add_weight_get_weight_def split: list.splits sum.splits)

lemma add_weight_get_weight_rejects:
  "accepted_weight (message_text u) = None \<Longrightarrow>
     add_weight_get_weight u s =
       (if split_ws (message_text u) = [] then (Inl IndexError, s)
        else (Inr GET_WEIGHT, reply_text u Invalid_weight s))"
  by (auto simp: accepted_weight_def add_weight_get_weight_def dest: py_float_ValueError
      split: list.splits sum.splits)

lemma add_weight_get_date_rejects:
  assumes "\<not> accepted_date (message_text u)"
  shows "add_weight_get_date today u s = (Inr GET_WEIGHT_DATE, reply_text u Invalid_date s)"
proof -
  from assms obtain e where "weight_date today (lower (message_text u)) = Inl e"
    using weight_date_accepted [of "message_text u" today]
    by (cases "weight_date today (lower (message_text u))")
       (auto simp: weight_date_def split: if_splits sum.splits)
  moreover from this have "e = ValueError" by (rule weight_date_ValueError)
  ultimately show ?thesis by (simp add: add_weight_get_date_def)
qed

lemma add_weight_get_date_accepts:
  assumes "accepted_date (message_text u)"
  shows "add_weight_get_date today u s =
     (let d = (if lower (message_text u) = ''today'' then today else lower (message_text u));
          s1 = snd (get_user_data (from_user_id u) s);
          s2 = (case temp_weight (contexts s (from_user_id u)) of
                  Some w \<Rightarrow>
                    reply_text u (Weight_recorded w d)
                      (save_data
                         (set_user_data (from_user_id u)
                            ((record_of (from_user_id u) s)\<lparr>weights := weights (record_of (from_user_id u) s)
                                 @ [\<lparr>date = d, weight = w\<rparr>]\<rparr>) s1))
                | None \<Rightarrow> reply_text u Weight_went_wrong s1)
      in (Inr END,
          set_context (from_user_id u)
            ((contexts s2 (from_user_id u))\<lparr>temp_weight := None\<rparr>) s2))"
proof -
  obtain d s1 where g: "get_user_data (from_user_id u) s = (d, s1)"
    by (cases "get_user_data (from_user_id u) s")
  then have d: "d = record_of (from_user_id u) s"
    using get_user_data_fst [of "from_user_id u" s] by simp
  have c: "contexts s1 = contexts s"
    using get_user_data_fields(4) [of "from_user_id u" s] g by simp
  have wd: "weight_date today (lower (message_text u)) =
      Inr (if lower (message_text u) = ''today'' then today else lower (message_text u))"
    using assms weight_date_accepted by blast
  show ?thesis
    unfolding add_weight_get_date_def wd
    by (simp add: g d c Let_def)
qed


lemma add_weight_get_date_stores:
  assumes a: "accepted_date (message_text u)"
    and t: "temp_weight (contexts s (from_user_id u)) = Some w"
  shows "record_of v (snd (add_weight_get_date today u s)) =
           (if v = from_user_id u
            then (record_of (from_user_id u) s)\<lparr>weights := weights (record_of (from_user_id u) s)
                   @ [\<lparr>date = (if lower (message_text u) = ''today'' then today
                                 else lower (message_text u)), weight = w\<rparr>]\<rparr>
            else record_of v s)"
    and "jobs (snd (add_weight_get_date today u s)) = jobs s"
    and "disk (snd (add_weight_get_date today u s)) =
           (if disk_writable s then Content (user_data (snd (add_weight_get_date today u s)))
            else disk s)"
    and "temp_weight (contexts (snd (add_weight_get_date today u s)) (from_user_id u)) = None"
proof -
  define s1 where "s1 = snd (get_user_data (from_user_id u) s)"
  define d where "d = (if lower (message_text u) = ''today'' then today else lower (message_text u))"
  define r where "r = (record_of (from_user_id u) s)\<lparr>weights := weights (record_of (from_user_id u) s)
                               @ [\<lparr>date = d, weight = w\<rparr>]\<rparr>"
  define s2 where "s2 = reply_text u (Weight_recorded w d) (save_data (set_user_data (from_user_id u) r s1))"
  define s' where "s' = set_context (from_user_id u) ((contexts s2 (from_user_id u))\<lparr>temp_weight := None\<rparr>) s2"
  have eq: "snd (add_weight_get_date today u s) = s'"
    by (simp add: add_weight_get_date_accepts [OF a] t Let_def s'_def s2_def r_def d_def s1_def)
  have ud: "user_data s' = AList.update (py_str (from_user_id u)) r (user_data s1)"
    by (simp add: s'_def s2_def)
  have "record_of v s' = record_of v (s1\<lparr>user_data := AList.update (py_str (from_user_id u)) r (user_data s1)\<rparr>)"
    by (rule record_of_cong) (simp add: ud)
  then show "record_of v (snd (add_weight_get_date today u s)) =
           (if v = from_user_id u
            then (record_of (from_user_id u) s)\<lparr>weights := weights (record_of (from_user_id u) s)
                   @ [\<lparr>date = (if lower (message_text u) = ''today'' then today
                                 else lower (message_text u)), weight = w\<rparr>]\<rparr>
            else record_of v s)"
    unfolding eq by (simp add: record_of_update s1_def r_def d_def)
  show "jobs (snd (add_weight_get_date today u s)) = jobs s"
    unfolding eq by (simp add: s'_def s2_def s1_def)
  show "disk (snd (add_weight_get_date today u s)) =
           (if disk_writable s then Content (user_data (snd (add_weight_get_date today u s)))
            else disk s)"
    unfolding eq by (simp add: s'_def s2_def s1_def)
  show "temp_weight (contexts (snd (add_weight_get_date today u s)) (from_user_id u)) = None"
    unfolding eq by (simp add: s'_def)
qed

lemma accepted_weight_minus_5: "accepted_weight ''-5'' = Some (Finite (- 5))"
  by (simp add: accepted_weight_def split_ws_def py_float_def strip_def py_isspace_def lower_def
      py_lower_def parse_floatnumber_def parse_number_def is_digit_def digits_val_def
      digit_val_def)

lemma accepted_date_today: "accepted_date ''today''"
  by (simp add: accepted_date_def lower_def py_lower_def)

lemma accepted_date_one_digit: "accepted_date ''2024-1-5''"
  by (simp add: accepted_date_def lower_def py_lower_def strptime_Ymd_def match_Ymd_def
      re_Y_def re_m_def re_d_def two_def one_def lit_def in_range_def is_digit_def digit_val_def
      days_in_month_def is_leap_def)

lemma record_of_installed: "record_of v installed = empty_record"
  by (simp add: record_of_def installed_def)

text \<open>
  C7 as stated fails: the weight is read with \<open>float\<close> and its sign is never looked at,
  so \<open>-5\<close> is taken and stored.
\<close>

theorem add_weight_counterexample:
  "accepted_weight ''-5'' = Some (Finite (- 5))
   \<and> \<not> (0::rat) < - 5
   \<and> fst (add_weight_get_weight (says ''-5'') installed) = Inr GET_WEIGHT_DATE
   \<and> weights (record_of 7 (snd (add_weight_get_date ''2026-11-04'' (says ''today'')
         (snd (add_weight_get_weight (says ''-5'') installed)))))
       = [\<lparr>date = ''2026-11-04'', weight = Finite (- 5)\<rparr>]"
proof -
  define s1 where "s1 = snd (add_weight_get_weight (says ''-5'') installed)"
  have a: "accepted_weight (message_text (says ''-5'')) = Some (Finite (- 5))"
    by (simp add: says_def accepted_weight_minus_5)
  have b: "accepted_date (message_text (says ''today''))"
    by (simp add: says_def accepted_date_today)
  have l: "lower (message_text (says ''today'')) = ''today''"
    by (simp add: says_def lower_def py_lower_def)
  have u: "from_user_id (says ''today'') = 7" "from_user_id (says ''-5'') = 7"
    by (simp_all add: says_def)
  have f: "fst (add_weight_get_weight (says ''-5'') installed) = Inr GET_WEIGHT_DATE"
    by (simp add: add_weight_get_weight_accepts [OF a])
  have t: "temp_weight (contexts s1 (from_user_id (says ''today''))) = Some (Finite (- 5))"
    by (simp add: s1_def add_weight_get_weight_accepts [OF a] u)
  have "user_data s1 = user_data installed"
    by (simp add: s1_def add_weight_get_weight_accepts [OF a])
  then have r: "record_of 7 s1 = empty_record"
    using record_of_cong [of s1 installed 7] by (simp add: record_of_installed)
  have "weights (record_of 7 (snd (add_weight_get_date ''2026-11-04'' (says ''today'') s1)))
      = [\<lparr>date = ''2026-11-04'', weight = Finite (- 5)\<rparr>]"
    by (simp add: add_weight_get_date_stores(1) [OF b t] u l r empty_record_def)
  with f show ?thesis by (simp add: accepted_weight_minus_5 s1_def)
qed

text \<open>
  C7, amended. \<open>add_weight_get_weight\<close> takes a text exactly when \<open>float\<close> reads its
  first whitespace-separated token (whatever the sign of the number, and also \<open>inf\<close> and
  \<open>nan\<close>); it keeps the number for the conversation and changes neither the store nor
  the file. \<open>add_weight_get_date\<close> takes a text exactly when in lower case it is
  \<open>today\<close> or \<open>strptime\<close> reads it with \<open>%Y-%m-%d\<close>; any other text only gets the
  invalid-date message. When the date is taken and a weight is kept, exactly one entry
  with the date (today's date for \<open>today\<close>) and that weight is appended to the weights
  of the user, the reminders of the user, all other records and the jobs are as before,
  \<open>save_data\<close> runs at once, so that the file holds the new store when it can be
  written, and the kept weight is dropped.
\<close>

theorem add_weight_effect:
  "(fst (add_weight_get_weight u s) = Inr GET_WEIGHT_DATE
      \<longleftrightarrow> accepted_weight (message_text u) \<noteq> None)
   \<and> (\<forall>w. accepted_weight (message_text u) = Some w \<longrightarrow>
        temp_weight (contexts (snd (add_weight_get_weight u s)) (from_user_id u)) = Some w)
   \<and> user_data (snd (add_weight_get_weight u s)) = user_data s
   \<and> disk (snd (add_weight_get_weight u s)) = disk s
   \<and> (fst (add_weight_get_date today u s) = Inr END \<longleftrightarrow> accepted_date (message_text u))
   \<and> (\<not> accepted_date (message_text u) \<longrightarrow>
        add_weight_get_date today u s = (Inr GET_WEIGHT_DATE, reply_text u Invalid_date s))
   \<and> (\<forall>w. accepted_date (message_text u) \<and> temp_weight (contexts s (from_user_id u)) = Some w \<longrightarrow>
        (let s' = snd (add_weight_get_date today u s);
             d = (if lower (message_text u) = ''today'' then today else lower (message_text u))
         in weights (record_of (from_user_id u) s')
              = weights (record_of (from_user_id u) s) @ [\<lparr>date = d, weight = w\<rparr>]
          \<and> reminders (record_of (from_user_id u) s') = reminders (record_of (from_user_id u) s)
          \<and> (\<forall>v. v \<noteq> from_user_id u \<longrightarrow> record_of v s' = record_of v s)
          \<and> jobs s' = jobs s
          \<and> disk s' = (if disk_writable s then Content (user_data s') else disk s)
          \<and> temp_weight (contexts s' (from_user_id u)) = None))"
proof -
  have w1: "fst (add_weight_get_weight u s) = Inr GET_WEIGHT_DATE
      \<longleftrightarrow> accepted_weight (message_text u) \<noteq> None"
  proof (cases "accepted_weight (message_text u)")
    case None
    then show ?thesis
      by (simp add: add_weight_get_weight_rejects GET_WEIGHT_def GET_WEIGHT_DATE_def)
  next
    case (Some w)
    then show ?thesis by (simp add: add_weight_get_weight_accepts)
  qed
  have w2: "temp_weight (contexts (snd (add_weight_get_weight u s)) (from_user_id u)) = Some w"
    if "accepted_weight (message_text u) = Some w" for w
    using that by (simp add: add_weight_get_weight_accepts)
  have w3: "user_data (snd (add_weight_get_weight u s)) = user_data s
      \<and> disk (snd (add_weight_get_weight u s)) = disk s"
    by (cases "accepted_weight (message_text u)")
       (simp_all add: add_weight_get_weight_rejects add_weight_get_weight_accepts)
  have d1: "fst (add_weight_get_date today u s) = Inr END \<longleftrightarrow> accepted_date (message_text u)"
  proof (cases "accepted_date (message_text u)")
    case True
    then show ?thesis by (simp add: add_weight_get_date_accepts Let_def)
  next
    case False
    then show ?thesis
      by (simp add: add_weight_get_date_rejects GET_WEIGHT_DATE_def END_def)
  qed
  have d2: "\<not> accepted_date (message_text u) \<longrightarrow>
      add_weight_get_date today u s = (Inr GET_WEIGHT_DATE, reply_text u Invalid_date s)"
    by (simp add: add_weight_get_date_rejects)
  have d3: "(let s' = snd (add_weight_get_date today u s);
             d = (if lower (message_text u) = ''today'' then today else lower (message_text u))
         in weights (record_of (from_user_id u) s')
              = weights (record_of (from_user_id u) s) @ [\<lparr>date = d, weight = w\<rparr>]
          \<and> reminders (record_of (from_user_id u) s') = reminders (record_of (from_user_id u) s)
          \<and> (\<forall>v. v \<noteq> from_user_id u \<longrightarrow> record_of v s' = record_of v s)
          \<and> jobs s' = jobs s
          \<and> disk s' = (if disk_writable s then Content (user_data s') else disk s)
          \<and> temp_weight (contexts s' (from_user_id u)) = None)"
    if a: "accepted_date (message_text u)" and t: "temp_weight (contexts s (from_user_id u)) = Some w"
    for w
    unfolding Let_def
    using add_weight_get_date_stores [OF a t] by simp
  from w1 w2 w3 d1 d2 d3 show ?thesis by blast
qed

theorem add_weight_effect_witness:
  "accepted_weight (message_text (says ''-5'')) = Some (Finite (- 5))
   \<and> temp_weight (contexts (snd (add_weight_get_weight (says ''-5'') two_reminders)) 7)
       = Some (Finite (- 5))
   \<and> \<not> accepted_date (message_text (says ''tomorrow''))
   \<and> add_weight_get_date ''2026-11-04'' (says ''tomorrow'') two_reminders
       = (Inr GET_WEIGHT_DATE, reply_text (says ''tomorrow'') Invalid_date two_reminders)"
proof -
  have n: "\<not> accepted_date ''tomorrow''"
    by (simp add: accepted_date_def lower_def py_lower_def strptime_Ymd_def match_Ymd_def
      re_Y_def is_digit_def)
  show ?thesis
    using add_weight_effect [of "says ''-5''" two_reminders "''2026-11-04''"]
      add_weight_effect [of "says ''tomorrow''" two_reminders "''2026-11-04''"]
    by (simp add: says_def accepted_weight_minus_5 n)
qed

subsection \<open>The identities of a store\<close>

lemma canonical_key_py_str: "canonical_key (py_str n)"
  by (simp add: canonical_key_def py_int_py_str)

lemma item_ids_canonical:
  "item_ids (py_str n, d) = map (\<lambda>r. job_id_of n (time r) (message r)) (reminders d)"
  by (simp add: item_ids_def py_int_py_str)

lemma item_ids_empty: "item_ids (k, empty_record) = []"
  by (simp add: item_ids_def empty_record_def split: sum.splits)

lemma store_ids_append: "store_ids (a @ b) = store_ids a @ store_ids b"
  by (simp add: store_ids_def)

lemma store_ids_Cons: "store_ids (x # a) = item_ids x @ store_ids a"
  by (simp add: store_ids_def)

lemma store_ids_update_upper:
  "map_of ud k = Some d \<Longrightarrow>
     set (store_ids (AList.update k d' ud)) \<subseteq> set (store_ids ud) \<union> set (item_ids (k, d'))"
  by (induction ud) (auto simp: store_ids_Cons split: if_splits)

lemma store_ids_update_new:
  "map_of ud k = Some d \<Longrightarrow> set (item_ids (k, d')) \<subseteq> set (store_ids (AList.update k d' ud))"
  by (induction ud) (auto simp: store_ids_Cons split: if_splits)

lemma store_ids_update_lower:
  "map_of ud k = Some d \<Longrightarrow>
     set (store_ids ud) \<subseteq> set (store_ids (AList.update k d' ud)) \<union> set (item_ids (k, d))"
  by (induction ud) (auto simp: store_ids_Cons split: if_splits)

lemma wf_store_update:
  "wf_store ud \<Longrightarrow> canonical_key k \<Longrightarrow> list_all (\<lambda>r. valid_time (time r)) (reminders d)
     \<Longrightarrow> wf_store (AList.update k d ud)"
  by (induction ud) (auto simp: wf_store_def)

lemma wf_store_lookup:
  "wf_store ud \<Longrightarrow> map_of ud k = Some d \<Longrightarrow> list_all (\<lambda>r. valid_time (time r)) (reminders d)"
  by (induction ud) (auto simp: wf_store_def split: if_splits)

lemma wf_store_record_of:
  "wf_store (user_data s) \<Longrightarrow> list_all (\<lambda>r. valid_time (time r)) (reminders (record_of v s))"
  by (auto simp: record_of_def empty_record_def dest: wf_store_lookup split: option.splits)

lemma get_user_data_wf:
  "wf_store (user_data s) \<Longrightarrow> wf_store (user_data (snd (get_user_data v s)))"
  by (auto simp: get_user_data_store wf_store_def canonical_key_py_str empty_record_def)

lemma get_user_data_store_ids:
  "store_ids (user_data (snd (get_user_data v s))) = store_ids (user_data s)"
  by (simp add: get_user_data_store store_ids_append store_ids_Cons item_ids_empty store_ids_def)

subsection \<open>The scheduler\<close>

lemma get_job_None: "get_job i s = None \<longleftrightarrow> i \<notin> set (job_ids s)"
  by (auto simp: get_job_def job_ids_def find_None_iff)

lemma filter_other_ids: "i \<notin> set (job_ids s) \<Longrightarrow> filter (\<lambda>k. job_id k \<noteq> i) (jobs s) = jobs s"
  by (auto simp: job_ids_def filter_id_conv)

lemma schedule_reminder_job_fields [simp]:
  "user_data (snd (schedule_reminder_job c t m s)) = user_data s"
  "disk (snd (schedule_reminder_job c t m s)) = disk s"
  "disk_writable (snd (schedule_reminder_job c t m s)) = disk_writable s"
  "contexts (snd (schedule_reminder_job c t m s)) = contexts s"
  "sent (snd (schedule_reminder_job c t m s)) = sent s"
  by (simp_all add: schedule_reminder_job_def add_job_def split: sum.splits option.splits prod.splits)

lemma schedule_reminder_job_ids:
  "job_ids (snd (schedule_reminder_job c t m s)) = job_ids s
   \<or> (job_id_of c t m \<notin> set (job_ids s)
       \<and> job_ids (snd (schedule_reminder_job c t m s)) = job_ids s @ [job_id_of c t m])"
proof (cases "get_job (job_id_of c t m) s")
  case None
  then have n: "job_id_of c t m \<notin> set (job_ids s)" by (simp add: get_job_None)
  then have f: "filter (\<lambda>k. job_id k \<noteq> job_id_of c t m) (jobs s) = jobs s"
    by (rule filter_other_ids)
  show ?thesis
    using None n f
    by (auto simp: schedule_reminder_job_def add_job_def job_ids_def
        split: sum.splits prod.splits)
next
  case (Some j)
  then show ?thesis
    by (auto simp: schedule_reminder_job_def job_ids_def split: sum.splits prod.splits)
qed

lemma schedule_reminder_job_valid:
  assumes "valid_time t"
  shows "set (job_ids (snd (schedule_reminder_job c t m s))) = insert (job_id_of c t m) (set (job_ids s))"
proof -
  from assms obtain h mi where p: "parse_hour_minute t = Inr (h, mi)"
    and cr: "cron_trigger h mi = Inr (h, mi)"
    using valid_time_parse by blast
  show ?thesis
  proof (cases "get_job (job_id_of c t m) s")
    case None
    then have n: "job_id_of c t m \<notin> set (job_ids s)" by (simp add: get_job_None)
    then have f: "filter (\<lambda>k. job_id k \<noteq> job_id_of c t m) (jobs s) = jobs s"
      by (rule filter_other_ids)
    show ?thesis
      using None f by (simp add: schedule_reminder_job_def p cr add_job_def job_ids_def)
  next
    case (Some j)
    then have "job_id_of c t m \<in> set (job_ids s)"
      using get_job_None [of "job_id_of c t m" s] by simp
    with Some show ?thesis
      by (auto simp: schedule_reminder_job_def p job_ids_def)
  qed
qed

lemma schedule_reminder_job_distinct:
  "distinct (job_ids s) \<Longrightarrow> distinct (job_ids (snd (schedule_reminder_job c t m s)))"
  using schedule_reminder_job_ids [of c t m s] by auto

lemma schedule_reminder_job_subset:
  "set (job_ids (snd (schedule_reminder_job c t m s))) \<subseteq> insert (job_id_of c t m) (set (job_ids s))"
  using schedule_reminder_job_ids [of c t m s] by auto

lemma repopulate_user_fields [simp]:
  "user_data (repopulate_user c rs s) = user_data s"
  "disk (repopulate_user c rs s) = disk s"
  "disk_writable (repopulate_user c rs s) = disk_writable s"
  "contexts (repopulate_user c rs s) = contexts s"
  "sent (repopulate_user c rs s) = sent s"
  by (induction rs arbitrary: s) simp_all

lemma repopulate_user_distinct:
  "distinct (job_ids s) \<Longrightarrow> distinct (job_ids (repopulate_user c rs s))"
  by (induction rs arbitrary: s) (simp_all add: schedule_reminder_job_distinct)

lemma repopulate_user_ids:
  "list_all (\<lambda>r. valid_time (time r)) rs \<Longrightarrow>
     set (job_ids (repopulate_user c rs s)) =
       set (job_ids s) \<union> set (map (\<lambda>r. job_id_of c (time r) (message r)) rs)"
  by (induction rs arbitrary: s) (auto simp: schedule_reminder_job_valid)

lemma repopulate_items_ok:
  assumes "wf_store ud"
  shows "fst (repopulate_items ud s) = Inr ()
       \<and> user_data (snd (repopulate_items ud s)) = user_data s
       \<and> disk (snd (repopulate_items ud s)) = disk s
       \<and> disk_writable (snd (repopulate_items ud s)) = disk_writable s
       \<and> contexts (snd (repopulate_items ud s)) = contexts s
       \<and> sent (snd (repopulate_items ud s)) = sent s
       \<and> set (job_ids (snd (repopulate_items ud s))) = set (job_ids s) \<union> set (store_ids ud)
       \<and> (distinct (job_ids s) \<longrightarrow> distinct (job_ids (snd (repopulate_items ud s))))"
  using assms
proof (induction ud arbitrary: s)
  case Nil
  then show ?case by (simp add: store_ids_def)
next
  case (Cons item ud)
  obtain k d where item: "item = (k, d)" by (cases item)
  from Cons.prems item have ck: "canonical_key k"
    and vt: "list_all (\<lambda>r. valid_time (time r)) (reminders d)" and wf: "wf_store ud"
    by (simp_all add: wf_store_def)
  from ck obtain n where n: "py_int k = Inr n" "py_str n = k"
    by (auto simp: canonical_key_def split: sum.splits)
  have ids: "item_ids (k, d) = map (\<lambda>r. job_id_of n (time r) (message r)) (reminders d)"
    by (simp add: item_ids_def n)
  have step: "repopulate_items (item # ud) s = repopulate_items ud (repopulate_user n (reminders d) s)"
    by (simp add: item n)
  show ?case
    unfolding step
    using Cons.IH [OF wf, of "repopulate_user n (reminders d) s"]
    by (auto simp: repopulate_user_ids [OF vt] repopulate_user_distinct store_ids_Cons item ids)
qed

lemma repopulate_scheduled_jobs_ok:
  assumes "wf_store (user_data s)"
  shows "fst (repopulate_scheduled_jobs s) = Inr ()"
    and "user_data (snd (repopulate_scheduled_jobs s)) = user_data s"
    and "disk (snd (repopulate_scheduled_jobs s)) = disk s"
    and "disk_writable (snd (repopulate_scheduled_jobs s)) = disk_writable s"
    and "contexts (snd (repopulate_scheduled_jobs s)) = contexts s"
    and "set (job_ids (snd (repopulate_scheduled_jobs s))) = set (job_ids s) \<union> set (store_ids (user_data s))"
    and "distinct (job_ids s) \<Longrightarrow> distinct (job_ids (snd (repopulate_scheduled_jobs s)))"
proof -
  obtain s' where r: "repopulate_items (user_data s) s = (Inr (), s')"
    using repopulate_items_ok [OF assms, of s]
    by (cases "repopulate_items (user_data s) s") auto
  have j: "job_ids (logger INFO Jobs_repopulated s') = job_ids s'"
    by (simp add: job_ids_def)
  have e: "repopulate_scheduled_jobs s = (Inr (), logger INFO Jobs_repopulated s')"
    by (simp add: repopulate_scheduled_jobs_def r)
  note ok = repopulate_items_ok [OF assms, of s, unfolded r snd_conv fst_conv]
  show "fst (repopulate_scheduled_jobs s) = Inr ()" by (simp add: e)
  show "user_data (snd (repopulate_scheduled_jobs s)) = user_data s" using ok by (simp add: e)
  show "disk (snd (repopulate_scheduled_jobs s)) = disk s" using ok by (simp add: e)
  show "disk_writable (snd (repopulate_scheduled_jobs s)) = disk_writable s" using ok by (simp add: e)
  show "contexts (snd (repopulate_scheduled_jobs s)) = contexts s" using ok by (simp add: e)
  show "set (job_ids (snd (repopulate_scheduled_jobs s))) = set (job_ids s) \<union> set (store_ids (user_data s))"
    using ok by (simp add: e j)
  show "distinct (job_ids s) \<Longrightarrow> distinct (job_ids (snd (repopulate_scheduled_jobs s)))"
    using ok by (simp add: e j)
qed

subsection \<open>The handlers keep the invariant\<close>

lemma invariant_frame:
  assumes "invariant s" and "user_data s' = user_data s" and "disk s' = disk s"
    and "jobs s' = jobs s"
    and "\<And>v. temp_reminder_time (contexts s' v) = temp_reminder_time (contexts s v)"
  shows "invariant s'"
  using assms by (simp add: invariant_def job_ids_def)

lemma invariant_get_user_data:
  assumes "invariant s"
  shows "invariant (snd (get_user_data v s))"
  using assms
  by (simp add: invariant_def get_user_data_wf get_user_data_store_ids job_ids_def)

lemma invariant_save_data: "invariant s \<Longrightarrow> invariant (save_data s)"
  by (simp add: invariant_def job_ids_def)

lemma store_ids_update_mono:
  assumes "map_of ud k = Some d" and "set (item_ids (k, d)) \<subseteq> set (item_ids (k, d'))"
  shows "set (store_ids ud) \<subseteq> set (store_ids (AList.update k d' ud))"
  using store_ids_update_lower [OF assms(1), of d'] store_ids_update_new [OF assms(1), of d'] assms(2)
  by blast

lemma item_ids_weights [simp]: "item_ids (k, d\<lparr>weights := ws\<rparr>) = item_ids (k, d)"
  by (simp add: item_ids_def split: sum.splits)

text \<open>Storing a changed record of a user the store knows.\<close>

lemma invariant_set_user_data:
  assumes inv: "invariant s" and known: "map_of (user_data s) (py_str v) = Some d"
    and valid: "list_all (\<lambda>r. valid_time (time r)) (reminders d')"
    and ids: "set (item_ids (py_str v, d)) \<subseteq> set (item_ids (py_str v, d'))"
  shows "invariant (set_user_data v d' s)"
proof -
  have "wf_store (AList.update (py_str v) d' (user_data s))"
    using inv valid by (simp add: invariant_def wf_store_update canonical_key_py_str)
  moreover have "set (job_ids s) \<subseteq> set (store_ids (AList.update (py_str v) d' (user_data s)))"
    using inv store_ids_update_mono [OF known ids] by (auto simp: invariant_def)
  ultimately show ?thesis
    using inv by (simp add: invariant_def job_ids_def)
qed

lemma invariant_simple [simp]:
  "invariant (reply_text u r s) = invariant s"
  "invariant (logger lv l s) = invariant s"
  by (simp_all add: invariant_def job_ids_def)

lemma invariant_start: "invariant s \<Longrightarrow> invariant (snd (start u s))"
  by (simp add: start_def)

lemma invariant_add_weight_start: "invariant s \<Longrightarrow> invariant (snd (add_weight_start u s))"
  by (simp add: add_weight_start_def)

lemma invariant_add_reminder_start: "invariant s \<Longrightarrow> invariant (snd (add_reminder_start u s))"
  by (simp add: add_reminder_start_def)

lemma invariant_add_weight_get_weight:
  assumes "invariant s"
  shows "invariant (snd (add_weight_get_weight u s))"
proof (cases "accepted_weight (message_text u)")
  case None
  with assms show ?thesis by (simp add: add_weight_get_weight_rejects)
next
  case (Some w)
  show ?thesis
    by (rule invariant_frame [OF assms]) (simp_all add: add_weight_get_weight_accepts [OF Some])
qed

lemma invariant_temp_weight:
  "invariant s \<Longrightarrow> invariant (set_context v ((contexts s v)\<lparr>temp_weight := x\<rparr>) s)"
  by (rule invariant_frame [where s = s]) simp_all

lemma invariant_add_weight_get_date:
  assumes inv: "invariant s"
  shows "invariant (snd (add_weight_get_date today u s))"
proof (cases "accepted_date (message_text u)")
  case False
  with inv show ?thesis by (simp add: add_weight_get_date_rejects)
next
  case True
  define s1 where "s1 = snd (get_user_data (from_user_id u) s)"
  have i1: "invariant s1" unfolding s1_def by (rule invariant_get_user_data [OF inv])
  have known: "map_of (user_data s1) (py_str (from_user_id u)) = Some (record_of (from_user_id u) s)"
    unfolding s1_def by (rule get_user_data_lookup)
  have valid: "list_all (\<lambda>r. valid_time (time r)) (reminders (record_of (from_user_id u) s))"
    using inv by (simp add: invariant_def wf_store_record_of)
  have i2: "invariant (set_user_data (from_user_id u)
      ((record_of (from_user_id u) s)\<lparr>weights := ws\<rparr>) s1)" for ws
    by (rule invariant_set_user_data [OF i1 known]) (simp_all add: valid)
  have i3: "invariant (case temp_weight (contexts s (from_user_id u)) of
                  Some w \<Rightarrow> reply_text u (Weight_recorded w d)
                      (save_data (set_user_data (from_user_id u)
                         ((record_of (from_user_id u) s)\<lparr>weights := ws w\<rparr>) s1))
                | None \<Rightarrow> reply_text u Weight_went_wrong s1)" for d ws
    by (simp add: i1 i2 invariant_save_data split: option.splits)
  show ?thesis
    unfolding add_weight_get_date_accepts [OF True] Let_def snd_conv s1_def [symmetric]
    by (rule invariant_temp_weight) (rule i3)
qed

lemma invariant_view_weights: "invariant s \<Longrightarrow> invariant (snd (view_weights u s))"
  by (simp add: view_weights_eq invariant_get_user_data)

lemma invariant_list_reminders: "invariant s \<Longrightarrow> invariant (snd (list_reminders u s))"
  by (simp add: list_reminders_eq invariant_get_user_data)

lemma add_reminder_invalid_time_aux:
  assumes "\<not> valid_time (message_text u)"
  shows "add_reminder_get_time u s = (Inr GET_REMINDER_TIME, reply_text u Invalid_time_format s)"
proof -
  from assms obtain e where "strptime_HM (message_text u) = Inl e"
    using valid_time_iff by (cases "strptime_HM (message_text u)") auto
  moreover from this have "e = ValueError" by (rule strptime_HM_ValueError)
  ultimately show ?thesis by (simp add: add_reminder_get_time_def)
qed

lemma invariant_add_reminder_get_time:
  assumes inv: "invariant s"
  shows "invariant (snd (add_reminder_get_time u s))"
proof (cases "valid_time (message_text u)")
  case False
  with inv show ?thesis by (simp add: add_reminder_invalid_time_aux)
next
  case True
  then obtain hm where "strptime_HM (message_text u) = Inr hm"
    using valid_time_iff by blast
  then have e: "add_reminder_get_time u s = (Inr GET_REMINDER_MESSAGE,
          reply_text u Ask_message
            (set_context (from_user_id u)
               ((contexts s (from_user_id u))\<lparr>temp_reminder_time := Some (message_text u)\<rparr>) s))"
    by (simp add: add_reminder_get_time_def)
  show ?thesis
    using inv True by (simp add: e invariant_def job_ids_def)
qed

lemma store_and_schedule_effect:
  assumes vt: "valid_time t"
  shows "user_data (store_and_schedule t u s) =
           AList.update (py_str (from_user_id u))
             ((record_of (from_user_id u) s)\<lparr>reminders := reminders (record_of (from_user_id u) s)
                  @ [\<lparr>time = t, message = message_text u\<rparr>]\<rparr>)
             (user_data (snd (get_user_data (from_user_id u) s)))"
    and "set (job_ids (store_and_schedule t u s)) =
           insert (job_id_of (from_user_id u) t (message_text u)) (set (job_ids s))"
    and "distinct (job_ids s) \<Longrightarrow> distinct (job_ids (store_and_schedule t u s))"
    and "disk (store_and_schedule t u s) =
           (if disk_writable s then Content (user_data (store_and_schedule t u s)) else disk s)"
    and "disk_writable (store_and_schedule t u s) = disk_writable s"
    and "contexts (store_and_schedule t u s) = contexts s"
proof -
  define s1 where "s1 = snd (get_user_data (from_user_id u) s)"
  define d where "d = (record_of (from_user_id u) s)\<lparr>reminders := reminders (record_of (from_user_id u) s)
                  @ [\<lparr>time = t, message = message_text u\<rparr>]\<rparr>"
  define s2 where "s2 = save_data (set_user_data (from_user_id u) d s1)"
  define s3 where "s3 = snd (schedule_reminder_job (from_user_id u) t (message_text u) s2)"
  obtain e where g: "get_user_data (from_user_id u) s = (e, s1)"
    by (cases "get_user_data (from_user_id u) s") (simp add: s1_def)
  then have e: "e = record_of (from_user_id u) s"
    using get_user_data_fst [of "from_user_id u" s] by simp
  obtain res where sch: "schedule_reminder_job (from_user_id u) t (message_text u) s2 = (res, s3)"
    by (cases "schedule_reminder_job (from_user_id u) t (message_text u) s2") (simp add: s3_def)
  have eq: "store_and_schedule t u s =
      (if res = Some True then reply_text u (Reminder_set t (message_text u)) s3
       else reply_text u Schedule_failed s3)"
    using sch by (simp add: store_and_schedule_def g e s2_def d_def)
  have j2: "job_ids s2 = job_ids s" by (simp add: job_ids_def s2_def s1_def)
  have j: "job_ids (store_and_schedule t u s) = job_ids s3" by (simp add: eq job_ids_def)
  show "user_data (store_and_schedule t u s) =
           AList.update (py_str (from_user_id u))
             ((record_of (from_user_id u) s)\<lparr>reminders := reminders (record_of (from_user_id u) s)
                  @ [\<lparr>time = t, message = message_text u\<rparr>]\<rparr>)
             (user_data (snd (get_user_data (from_user_id u) s)))"
    by (simp add: eq s3_def s2_def d_def s1_def)
  show "set (job_ids (store_and_schedule t u s)) =
           insert (job_id_of (from_user_id u) t (message_text u)) (set (job_ids s))"
    unfolding j s3_def using schedule_reminder_job_valid [OF vt, of "from_user_id u" "message_text u" s2]
    by (simp add: j2)
  show "distinct (job_ids (store_and_schedule t u s))" if "distinct (job_ids s)"
    unfolding j s3_def using that by (intro schedule_reminder_job_distinct) (simp add: j2)
  show "disk (store_and_schedule t u s) =
           (if disk_writable s then Content (user_data (store_and_schedule t u s)) else disk s)"
    by (simp add: eq s3_def s2_def s1_def)
  show "disk_writable (store_and_schedule t u s) = disk_writable s"
    by (simp add: eq s3_def s2_def s1_def)
  show "contexts (store_and_schedule t u s) = contexts s"
    by (simp add: eq s3_def s2_def s1_def)
qed

lemma item_ids_snoc:
  "set (item_ids (py_str n, d\<lparr>reminders := reminders d @ [r]\<rparr>)) =
     insert (job_id_of n (time r) (message r)) (set (item_ids (py_str n, d)))"
  by (auto simp: item_ids_canonical)

lemma invariant_store_and_schedule:
  assumes inv: "invariant s" and vt: "valid_time t"
  shows "invariant (store_and_schedule t u s)"
proof -
  define v where "v = from_user_id u"
  define s1 where "s1 = snd (get_user_data v s)"
  define d where "d = record_of v s"
  define d' where "d' = d\<lparr>reminders := reminders d @ [\<lparr>time = t, message = message_text u\<rparr>]\<rparr>"
  note eff = store_and_schedule_effect [OF vt, where u = u and s = s, folded v_def, folded d_def,
      folded d'_def, folded s1_def]
  have i1: "invariant s1" unfolding s1_def by (rule invariant_get_user_data [OF inv])
  have known: "map_of (user_data s1) (py_str v) = Some d"
    unfolding s1_def d_def by (rule get_user_data_lookup)
  have valid: "list_all (\<lambda>r. valid_time (time r)) (reminders d')"
    using inv vt by (simp add: d'_def d_def invariant_def wf_store_record_of)
  have ids: "set (item_ids (py_str v, d')) =
      insert (job_id_of v t (message_text u)) (set (item_ids (py_str v, d)))"
    unfolding d'_def by (simp add: item_ids_snoc)
  have wf: "wf_store (user_data (store_and_schedule t u s))"
    unfolding eff(1) using i1 valid
    by (simp add: invariant_def wf_store_update canonical_key_py_str)
  have sub1: "set (store_ids (user_data s)) \<subseteq> set (store_ids (user_data (store_and_schedule t u s)))"
  proof -
    have "set (store_ids (user_data s1)) \<subseteq> set (store_ids (AList.update (py_str v) d' (user_data s1)))"
      by (rule store_ids_update_mono [OF known]) (simp add: ids subset_insertI)
    then show ?thesis unfolding eff(1) by (simp add: s1_def get_user_data_store_ids)
  qed
  have new: "job_id_of v t (message_text u) \<in> set (store_ids (user_data (store_and_schedule t u s)))"
    unfolding eff(1) using store_ids_update_new [OF known, of d'] ids by auto
  have sub: "set (job_ids (store_and_schedule t u s)) \<subseteq> set (store_ids (user_data (store_and_schedule t u s)))"
    unfolding eff(2) using inv sub1 new by (auto simp: invariant_def)
  have dk: "case disk (store_and_schedule t u s) of Absent \<Rightarrow> True | Content c \<Rightarrow> wf_store c | _ \<Rightarrow> False"
    unfolding eff(4) using inv wf by (simp add: invariant_def)
  have ctx: "\<forall>w. case temp_reminder_time (contexts (store_and_schedule t u s) w) of
      None \<Rightarrow> True | Some x \<Rightarrow> valid_time x"
    unfolding eff(6) using inv by (simp add: invariant_def)
  have dist: "distinct (job_ids (store_and_schedule t u s))"
    using inv by (intro eff(3)) (simp add: invariant_def)
  from wf dk ctx dist sub show ?thesis unfolding invariant_def by blast
qed

lemma invariant_clear_time:
  "invariant s \<Longrightarrow> invariant (set_context v ((contexts s v)\<lparr>temp_reminder_time := None\<rparr>) s)"
  by (simp add: invariant_def job_ids_def)

lemma invariant_add_reminder_get_message:
  assumes inv: "invariant s"
  shows "invariant (snd (add_reminder_get_message u s))"
proof -
  have "invariant (case temp_reminder_time (contexts s (from_user_id u)) of
                  None \<Rightarrow> reply_text u Reminder_went_wrong s
                | Some reminder_time \<Rightarrow>
                    if reminder_time \<noteq> [] \<and> message_text u \<noteq> []
                    then store_and_schedule reminder_time u s
                    else reply_text u Reminder_went_wrong s)"
  proof (cases "temp_reminder_time (contexts s (from_user_id u))")
    case None
    with inv show ?thesis by simp
  next
    case (Some t)
    from inv have "\<forall>w. case temp_reminder_time (contexts s w) of
        None \<Rightarrow> True | Some x \<Rightarrow> valid_time x"
      by (simp add: invariant_def)
    then have "case temp_reminder_time (contexts s (from_user_id u)) of
        None \<Rightarrow> True | Some x \<Rightarrow> valid_time x" by (rule spec)
    with Some have "valid_time t" by simp
    with inv Some show ?thesis by (simp add: invariant_store_and_schedule)
  qed
  then show ?thesis
    unfolding add_reminder_get_message_def Let_def snd_conv by (rule invariant_clear_time)
qed

lemma invariant_cancel: "invariant s \<Longrightarrow> invariant (snd (cancel u s))"
  by (simp add: cancel_def invariant_def job_ids_def empty_context_def)

lemma not_nth_in_rest:
  assumes "x \<in> set xs" and "i < length xs" and "f x \<noteq> f (xs ! i)"
  shows "x \<in> set (take i xs @ drop (Suc i) xs)"
proof -
  from assms(1) obtain k where k: "k < length xs" "xs ! k = x"
    by (auto simp: in_set_conv_nth)
  with assms(3) have "k \<noteq> i" by auto
  then consider "k < i" | "i < k" by linarith
  then show ?thesis
  proof cases
    case 1
    then have "take i xs ! k = x" "k < length (take i xs)" using k assms(2) by simp_all
    then have "x \<in> set (take i xs)" using nth_mem by blast
    then show ?thesis by simp
  next
    case 2
    then have "drop (Suc i) xs ! (k - Suc i) = x" "k - Suc i < length (drop (Suc i) xs)"
      using k by simp_all
    then have "x \<in> set (drop (Suc i) xs)" using nth_mem by blast
    then show ?thesis by simp
  qed
qed

lemma invariant_delete_at:
  assumes inv: "invariant s" and known: "map_of (user_data s) (py_str (from_user_id u)) = Some d"
    and i: "i < length (reminders d)"
  shows "invariant (delete_at i d u s)"
proof -
  define v where "v = from_user_id u"
  define rs where "rs = reminders d"
  define d' where "d' = d\<lparr>reminders := take i rs @ drop (Suc i) rs\<rparr>"
  define jid where "jid = job_id_of v (time (rs ! i)) (message (rs ! i))"
  note eff = delete_at_fields [OF i, where u = u and s = s, folded v_def, folded rs_def, folded d'_def,
      folded jid_def]
  have known': "map_of (user_data s) (py_str v) = Some d" using known by (simp add: v_def)
  have valid: "list_all (\<lambda>r. valid_time (time r)) rs"
    using inv known' wf_store_lookup by (auto simp: invariant_def rs_def)
  have valid': "list_all (\<lambda>r. valid_time (time r)) (reminders d')"
    using valid by (auto simp: d'_def list_all_iff dest: in_set_takeD in_set_dropD)
  have wf: "wf_store (user_data (delete_at i d u s))"
    unfolding eff(1) using inv valid'
    by (simp add: invariant_def wf_store_update canonical_key_py_str)
  have dist: "distinct (job_ids (delete_at i d u s))"
    using inv by (simp add: job_ids_def eff(2) invariant_def distinct_map_filter)
  have sub: "set (job_ids (delete_at i d u s)) \<subseteq> set (store_ids (user_data (delete_at i d u s)))"
  proof
    fix j assume "j \<in> set (job_ids (delete_at i d u s))"
    then have j: "j \<in> set (job_ids s)" "j \<noteq> jid"
      by (auto simp: job_ids_def eff(2))
    with inv have "j \<in> set (store_ids (user_data s))" by (auto simp: invariant_def)
    then have "j \<in> set (store_ids (AList.update (py_str v) d' (user_data s))) \<or> j \<in> set (item_ids (py_str v, d))"
      using store_ids_update_lower [OF known', of d'] by auto
    moreover have "j \<in> set (item_ids (py_str v, d'))" if "j \<in> set (item_ids (py_str v, d))"
    proof -
      from that obtain r where r: "r \<in> set rs" "j = job_id_of v (time r) (message r)"
        by (auto simp: item_ids_canonical rs_def)
      with j(2) have "(\<lambda>r. job_id_of v (time r) (message r)) r \<noteq> (\<lambda>r. job_id_of v (time r) (message r)) (rs ! i)"
        by (simp add: jid_def)
      with r(1) i have "r \<in> set (take i rs @ drop (Suc i) rs)"
        unfolding rs_def [symmetric] by (intro not_nth_in_rest) auto
      with r(2) show ?thesis by (auto simp: item_ids_canonical d'_def)
    qed
    moreover have "set (item_ids (py_str v, d')) \<subseteq> set (store_ids (AList.update (py_str v) d' (user_data s)))"
      by (rule store_ids_update_new [OF known'])
    ultimately show "j \<in> set (store_ids (user_data (delete_at i d u s)))"
      unfolding eff(1) by auto
  qed
  have dk: "case disk (delete_at i d u s) of Absent \<Rightarrow> True | Content c \<Rightarrow> wf_store c | _ \<Rightarrow> False"
    unfolding eff(3) using inv wf by (simp add: invariant_def)
  have ctx: "\<forall>w. case temp_reminder_time (contexts (delete_at i d u s) w) of
      None \<Rightarrow> True | Some x \<Rightarrow> valid_time x"
    unfolding eff(5) using inv by (simp add: invariant_def)
  from wf dk ctx dist sub show ?thesis unfolding invariant_def by blast
qed

lemma invariant_delete_reminder:
  assumes inv: "invariant s"
  shows "invariant (snd (delete_reminder u s))"
proof -
  define s1 where "s1 = snd (get_user_data (from_user_id u) s)"
  have i1: "invariant s1" unfolding s1_def by (rule invariant_get_user_data [OF inv])
  have known: "map_of (user_data s1) (py_str (from_user_id u)) = Some (record_of (from_user_id u) s)"
    unfolding s1_def by (rule get_user_data_lookup)
  have del: "invariant (delete_at (nat (n - 1)) (record_of (from_user_id u) s) u s1)"
    if "1 \<le> n" "n \<le> int (length (reminders (record_of (from_user_id u) s)))" for n
    using that by (intro invariant_delete_at [OF i1 known]) auto
  show ?thesis
    unfolding delete_reminder_split s1_def [symmetric]
    using i1 del by (auto split: list.splits sum.splits)
qed

subsection \<open>Starting the process, and every run\<close>

lemma main_start_effect:
  assumes "case disk s of Absent \<Rightarrow> True | Content d \<Rightarrow> wf_store d | _ \<Rightarrow> False"
  shows "fst (main_start s) = Inr ()"
    and "user_data (snd (main_start s)) = (case disk s of Content d \<Rightarrow> d | _ \<Rightarrow> [])"
    and "disk (snd (main_start s)) = disk s"
    and "disk_writable (snd (main_start s)) = disk_writable s"
    and "set (job_ids (snd (main_start s))) = set (store_ids (user_data (snd (main_start s))))"
    and "distinct (job_ids (snd (main_start s)))"
    and "invariant (snd (main_start s))"
proof -
  define s1 where "s1 = snd (load_data (process_start s))"
  have l: "load_data (process_start s) = (Inr (user_data s1), s1)"
    using assms by (auto simp: s1_def load_data_def process_start_def split: data_file.splits)
  have u1: "user_data s1 = (case disk s of Content d \<Rightarrow> d | _ \<Rightarrow> [])"
    using assms by (auto simp: s1_def load_data_def process_start_def split: data_file.splits)
  have f1: "disk s1 = disk s" "disk_writable s1 = disk_writable s" "jobs s1 = []"
    "contexts s1 = (\<lambda>_. empty_context)"
    using assms by (auto simp: s1_def load_data_def process_start_def split: data_file.splits)
  have wf: "wf_store (user_data s1)"
    using assms by (auto simp: u1 wf_store_def split: data_file.splits)
  have m: "main_start s = repopulate_scheduled_jobs s1"
    by (simp add: main_start_def l)
  note ok = repopulate_scheduled_jobs_ok [OF wf]
  have j1: "job_ids s1 = []" by (simp add: job_ids_def f1)
  show "fst (main_start s) = Inr ()" by (simp add: m ok)
  show u: "user_data (snd (main_start s)) = (case disk s of Content d \<Rightarrow> d | _ \<Rightarrow> [])"
    by (simp add: m ok u1)
  show d: "disk (snd (main_start s)) = disk s" by (simp add: m ok f1)
  show "disk_writable (snd (main_start s)) = disk_writable s" by (simp add: m ok f1)
  show j: "set (job_ids (snd (main_start s))) = set (store_ids (user_data (snd (main_start s))))"
    by (simp add: m ok j1)
  show di: "distinct (job_ids (snd (main_start s)))"
    unfolding m by (rule ok(7)) (simp add: j1)
  have c: "contexts (snd (main_start s)) = (\<lambda>_. empty_context)" by (simp add: m ok f1)
  have w: "wf_store (user_data (snd (main_start s)))" using wf by (simp add: m ok)
  show "invariant (snd (main_start s))"
    unfolding invariant_def using w j di assms by (simp add: d c empty_context_def)
qed

lemma invariant_disk:
  "invariant s \<Longrightarrow> (case disk s of Absent \<Rightarrow> True | Content d \<Rightarrow> wf_store d | _ \<Rightarrow> False)"
  by (simp add: invariant_def)

lemma invariant_step: "invariant s \<Longrightarrow> invariant (step ev s)"
proof (cases ev)
  case (Restart g)
  assume inv: "invariant s"
  then have "invariant (if g then main_stop s else s)"
    by (simp add: main_stop_def invariant_save_data)
  then have "invariant (snd (main_start (if g then main_stop s else s)))"
    by (intro main_start_effect(7) invariant_disk)
  with Restart show ?thesis by simp
next
  case (Set_writable w)
  assume "invariant s"
  with Set_writable show ?thesis by (simp add: invariant_def job_ids_def)
qed (simp_all add: invariant_start invariant_add_weight_start invariant_add_weight_get_weight
      invariant_add_weight_get_date invariant_view_weights invariant_add_reminder_start
      invariant_add_reminder_get_time invariant_add_reminder_get_message invariant_list_reminders
      invariant_delete_reminder invariant_cancel)

lemma invariant_steps: "invariant s \<Longrightarrow> invariant (foldl (\<lambda>s ev. step ev s) s evs)"
  by (induction evs arbitrary: s) (simp_all add: invariant_step)

lemma invariant_run: "invariant (run evs)"
proof -
  have "invariant (snd (main_start installed))"
    by (rule main_start_effect(7)) (simp add: installed_def)
  then show ?thesis unfolding run_def by (rule invariant_steps)
qed

lemma run_snoc: "run (evs @ [ev]) = step ev (run evs)"
  by (simp add: run_def)

lemma restart_reconciled:
  assumes "invariant s"
  shows "set (job_ids (step (Restart g) s)) = set (store_ids (user_data (step (Restart g) s)))"
proof -
  from assms have "invariant (if g then main_stop s else s)"
    by (simp add: main_stop_def invariant_save_data)
  then show ?thesis
    unfolding step.simps by (intro main_start_effect(5) invariant_disk)
qed

lemma first_start_reconciled: "set (job_ids (run [])) = set (store_ids (user_data (run [])))"
  unfolding run_def foldl.simps by (rule main_start_effect(5)) (simp add: installed_def)

text \<open>
  C1. In every state the bot reaches from its first start by updates, restarts and
  changes of the file's writability, the identities of the live jobs are among the
  identities of the reminders of the store; the reconciler \<open>repopulate_scheduled_jobs\<close>
  returns normally there, leaves the store as it is, and after it the two sets of
  identities are equal. They are equal after the first start and after every restart,
  where the store is what the data file holds.
\<close>

theorem schedule_store_consistency:
  "set (job_ids (run evs)) \<subseteq> set (store_ids (user_data (run evs)))
   \<and> fst (repopulate_scheduled_jobs (run evs)) = Inr ()
   \<and> user_data (snd (repopulate_scheduled_jobs (run evs))) = user_data (run evs)
   \<and> set (job_ids (snd (repopulate_scheduled_jobs (run evs)))) = set (store_ids (user_data (run evs)))
   \<and> set (job_ids (run (evs @ [Restart graceful])))
       = set (store_ids (user_data (run (evs @ [Restart graceful]))))
   \<and> set (job_ids (run [])) = set (store_ids (user_data (run [])))"
proof -
  have inv: "invariant (run evs)" by (rule invariant_run)
  then have wf: "wf_store (user_data (run evs))"
    and sub: "set (job_ids (run evs)) \<subseteq> set (store_ids (user_data (run evs)))"
    by (simp_all add: invariant_def)
  note ok = repopulate_scheduled_jobs_ok [OF wf]
  have "set (job_ids (snd (repopulate_scheduled_jobs (run evs)))) = set (store_ids (user_data (run evs)))"
    using ok(6) sub by auto
  moreover have "set (job_ids (run (evs @ [Restart graceful])))
       = set (store_ids (user_data (run (evs @ [Restart graceful]))))"
    unfolding run_snoc by (rule restart_reconciled [OF inv])
  ultimately show ?thesis using sub ok(1,2) first_start_reconciled by simp
qed

lemma feed_the_dog_jobs:
  "job_ids (run feed_the_dog) = [''reminder_7_08:30_Feed_the_dog'']"
  by code_simp

lemma feed_the_dog_store:
  "user_data (run (feed_the_dog @ [Restart False])) =
     [(''7'', \<lparr>weights = [], reminders = [\<lparr>time = ''08:30'', message = ''Feed the dog''\<rparr>]\<rparr>)]"
  by code_simp

theorem schedule_store_consistency_witness:
  "job_ids (run feed_the_dog) = [''reminder_7_08:30_Feed_the_dog'']
   \<and> set (job_ids (run feed_the_dog)) \<subseteq> set (store_ids (user_data (run feed_the_dog)))
   \<and> user_data (run (feed_the_dog @ [Restart False])) =
       [(''7'', \<lparr>weights = [], reminders = [\<lparr>time = ''08:30'', message = ''Feed the dog''\<rparr>]\<rparr>)]
   \<and> set (job_ids (run (feed_the_dog @ [Restart False])))
       = set (store_ids (user_data (run (feed_the_dog @ [Restart False]))))"
  using schedule_store_consistency [of feed_the_dog False]
  by (simp only: feed_the_dog_jobs feed_the_dog_store simp_thms)

lemma live_jobs_one:
  assumes "distinct (job_ids s)" and "i \<in> set (job_ids s)"
  shows "live_jobs i s = 1"
proof -
  have "live_jobs i s = length (filter (\<lambda>x. x = i) (job_ids s))"
    by (simp add: live_jobs_def job_ids_def filter_map comp_def)
  also have "\<dots> = card ({x. x = i} \<inter> set (job_ids s))"
    using assms(1) by (rule distinct_length_filter)
  also have "{x. x = i} \<inter> set (job_ids s) = {i}" using assms(2) by auto
  finally show ?thesis by simp
qed

lemma add_reminder_eq:
  assumes vt: "valid_time t" and msg: "msg \<noteq> []"
  shows "add_reminder v t msg s =
     (let u = \<lparr>from_user_id = v, message_text = msg, args = []\<rparr>;
          s1 = reply_text \<lparr>from_user_id = v, message_text = t, args = []\<rparr> Ask_message
                 (set_context v ((contexts s v)\<lparr>temp_reminder_time := Some t\<rparr>) s);
          s2 = store_and_schedule t u s1
      in set_context v ((contexts s2 v)\<lparr>temp_reminder_time := None\<rparr>) s2)"
proof -
  from vt obtain hm where "strptime_HM t = Inr hm" using valid_time_iff by blast
  then have 1: "add_reminder_get_time \<lparr>from_user_id = v, message_text = t, args = []\<rparr> s =
      (Inr GET_REMINDER_MESSAGE,
       reply_text \<lparr>from_user_id = v, message_text = t, args = []\<rparr> Ask_message
         (set_context v ((contexts s v)\<lparr>temp_reminder_time := Some t\<rparr>) s))"
    by (simp add: add_reminder_get_time_def)
  have t: "t \<noteq> []" using vt by (rule valid_time_nonempty)
  show ?thesis
    unfolding add_reminder_def 1 snd_conv
    by (simp add: add_reminder_get_message_def Let_def t msg)
qed

lemma add_reminder_effect:
  assumes vt: "valid_time t" and msg: "msg \<noteq> []"
  shows "record_of w (add_reminder v t msg s) =
           (if w = v then (record_of v s)\<lparr>reminders := reminders (record_of v s)
                             @ [\<lparr>time = t, message = msg\<rparr>]\<rparr>
            else record_of w s)"
    and "set (job_ids (add_reminder v t msg s)) = insert (job_id_of v t msg) (set (job_ids s))"
    and "distinct (job_ids s) \<Longrightarrow> distinct (job_ids (add_reminder v t msg s))"
    and "disk (add_reminder v t msg s) =
           (if disk_writable s then Content (user_data (add_reminder v t msg s)) else disk s)"
    and "disk_writable (add_reminder v t msg s) = disk_writable s"
proof -
  define u where "u = \<lparr>from_user_id = v, message_text = msg, args = []\<rparr>"
  define s1 where "s1 = reply_text \<lparr>from_user_id = v, message_text = t, args = []\<rparr> Ask_message
                 (set_context v ((contexts s v)\<lparr>temp_reminder_time := Some t\<rparr>) s)"
  define s2 where "s2 = store_and_schedule t u s1"
  have eq: "add_reminder v t msg s = set_context v ((contexts s2 v)\<lparr>temp_reminder_time := None\<rparr>) s2"
    by (simp add: add_reminder_eq [OF vt msg] Let_def s2_def s1_def u_def)
  have u: "from_user_id u = v" "message_text u = msg" by (simp_all add: u_def)
  note eff = store_and_schedule_effect [OF vt, where u = u and s = s1, folded s2_def, unfolded u]
  have r1: "record_of x s1 = record_of x s" for x
    by (rule record_of_cong) (simp add: s1_def)
  have j1: "job_ids s1 = job_ids s" by (simp add: job_ids_def s1_def)
  have w1: "disk_writable s1 = disk_writable s" "disk s1 = disk s" by (simp_all add: s1_def)
  have j: "job_ids (add_reminder v t msg s) = job_ids s2" by (simp add: eq job_ids_def)
  have "record_of w (add_reminder v t msg s) = record_of w s2"
    by (rule record_of_cong) (simp add: eq)
  also have "\<dots> = record_of w ((snd (get_user_data v s1))\<lparr>user_data :=
      AList.update (py_str v) ((record_of v s1)\<lparr>reminders := reminders (record_of v s1)
                             @ [\<lparr>time = t, message = msg\<rparr>]\<rparr>) (user_data (snd (get_user_data v s1)))\<rparr>)"
    by (rule record_of_cong) (simp add: eff(1))
  finally show "record_of w (add_reminder v t msg s) =
           (if w = v then (record_of v s)\<lparr>reminders := reminders (record_of v s)
                             @ [\<lparr>time = t, message = msg\<rparr>]\<rparr>
            else record_of w s)"
    by (simp add: record_of_update r1)
  show "set (job_ids (add_reminder v t msg s)) = insert (job_id_of v t msg) (set (job_ids s))"
    by (simp add: j eff(2) j1)
  show "distinct (job_ids (add_reminder v t msg s))" if "distinct (job_ids s)"
    unfolding j using that by (intro eff(3)) (simp add: j1)
  show "disk (add_reminder v t msg s) =
           (if disk_writable s then Content (user_data (add_reminder v t msg s)) else disk s)"
    by (simp add: eq eff(4) w1)
  show "disk_writable (add_reminder v t msg s) = disk_writable s"
    by (simp add: eq eff(5) w1)
qed

lemma add_reminder_steps:
  "add_reminder v t msg s =
     step (Add_reminder_get_message \<lparr>from_user_id = v, message_text = msg, args = []\<rparr>)
       (step (Add_reminder_get_time \<lparr>from_user_id = v, message_text = t, args = []\<rparr>) s)"
  by (simp add: add_reminder_def)

lemma invariant_add_reminder: "invariant s \<Longrightarrow> invariant (add_reminder v t msg s)"
  unfolding add_reminder_steps by (intro invariant_step)

lemma restart_loads:
  assumes inv: "invariant s" and d: "disk s = Content (user_data s)"
  shows "user_data (step (Restart g) s) = user_data s"
    and "set (job_ids (step (Restart g) s)) = set (store_ids (user_data s))"
    and "distinct (job_ids (step (Restart g) s))"
proof -
  define s0 where "s0 = (if g then main_stop s else s)"
  have i0: "invariant s0" using inv by (simp add: s0_def main_stop_def invariant_save_data)
  have d0: "disk s0 = Content (user_data s)" using d by (simp add: s0_def main_stop_def)
  note ms = main_start_effect [OF invariant_disk [OF i0]]
  have st: "step (Restart g) s = snd (main_start s0)" by (simp add: s0_def)
  have u0: "user_data (snd (main_start s0)) = user_data s" by (simp add: ms(2) d0)
  show "user_data (step (Restart g) s) = user_data s" unfolding st by (rule u0)
  show "set (job_ids (step (Restart g) s)) = set (store_ids (user_data s))"
    unfolding st using ms(5) u0 by simp
  show "distinct (job_ids (step (Restart g) s))" unfolding st by (rule ms(6))
qed

text \<open>
  C2. In every state the bot reaches, for every valid time and non-empty message: one
  \<open>/addreminder\<close> conversation appends one entry to the reminders of the user and leaves
  exactly one live job with the identity of the triple; a second conversation with the
  same time and message appends a second, equal entry and still leaves exactly one live
  job with that identity; so does the reconciler run after one conversation, which
  leaves the store as it is; and so does a restart after one conversation, which
  loads the one entry from the data file when the file could be written.
\<close>

theorem add_reminder_idempotent:
  assumes "valid_time t" and "msg \<noteq> []"
  shows "(let s = run evs;
              r = \<lparr>time = t, message = msg\<rparr>;
              i = job_id_of v t msg;
              s1 = add_reminder v t msg s;
              s2 = add_reminder v t msg s1;
              s3 = snd (repopulate_scheduled_jobs s1);
              s4 = step (Restart graceful) s1
          in reminders (record_of v s1) = reminders (record_of v s) @ [r]
           \<and> live_jobs i s1 = 1
           \<and> reminders (record_of v s2) = reminders (record_of v s) @ [r, r]
           \<and> live_jobs i s2 = 1
           \<and> user_data s3 = user_data s1
           \<and> live_jobs i s3 = 1
           \<and> (disk_writable s \<longrightarrow>
                reminders (record_of v s4) = reminders (record_of v s) @ [r]
                \<and> live_jobs i s4 = 1))"
proof -
  define s where "s = run evs"
  define i where "i = job_id_of v t msg"
  define s1 where "s1 = add_reminder v t msg s"
  define s2 where "s2 = add_reminder v t msg s1"
  define s3 where "s3 = snd (repopulate_scheduled_jobs s1)"
  define s4 where "s4 = step (Restart graceful) s1"
  note eff = add_reminder_effect [OF assms]
  have inv: "invariant s" unfolding s_def by (rule invariant_run)
  have inv1: "invariant s1" unfolding s1_def by (rule invariant_add_reminder [OF inv])
  have inv2: "invariant s2" unfolding s2_def by (rule invariant_add_reminder [OF inv1])
  have i1: "i \<in> set (job_ids s1)" by (simp add: s1_def i_def eff(2))
  have i2: "i \<in> set (job_ids s2)" by (simp add: s2_def i_def eff(2))
  have d1: "distinct (job_ids s1)" and d2: "distinct (job_ids s2)"
    using inv1 inv2 by (simp_all add: invariant_def)
  have wf1: "wf_store (user_data s1)" using inv1 by (simp add: invariant_def)
  have r1: "reminders (record_of v s1) = reminders (record_of v s) @ [\<lparr>time = t, message = msg\<rparr>]"
    by (simp add: s1_def eff(1))
  have r2: "reminders (record_of v s2) = reminders (record_of v s) @ [\<lparr>time = t, message = msg\<rparr>,
      \<lparr>time = t, message = msg\<rparr>]"
    by (simp add: s2_def eff(1) r1)
  note ok = repopulate_scheduled_jobs_ok [OF wf1]
  have u3: "user_data s3 = user_data s1" by (simp add: s3_def ok(2))
  have l3: "live_jobs i s3 = 1"
  proof (rule live_jobs_one)
    show "distinct (job_ids s3)" unfolding s3_def by (rule ok(7) [OF d1])
    show "i \<in> set (job_ids s3)" using i1 by (simp add: s3_def ok(6))
  qed
  have r4: "reminders (record_of v s4) = reminders (record_of v s) @ [\<lparr>time = t, message = msg\<rparr>]
      \<and> live_jobs i s4 = 1" if w: "disk_writable s"
  proof -
    have dk: "disk s1 = Content (user_data s1)" using w by (simp add: s1_def eff(4))
    note rl = restart_loads [OF inv1 dk, of graceful, folded s4_def]
    have "record_of v s4 = record_of v s1" by (rule record_of_cong) (rule rl(1))
    moreover have "i \<in> set (job_ids s4)"
      using i1 inv1 by (auto simp: rl(2) invariant_def)
    ultimately show ?thesis using rl(3) r1 by (simp add: live_jobs_one)
  qed
  show ?thesis
    unfolding Let_def s_def [symmetric] i_def [symmetric] s1_def [symmetric] s2_def [symmetric]
      s3_def [symmetric] s4_def [symmetric]
    using r1 r2 u3 l3 r4 live_jobs_one [OF d1 i1] live_jobs_one [OF d2 i2] by blast
qed

lemma feed_the_dog_twice:
  "user_data (add_reminder 7 ''08:30'' ''Feed the dog'' (add_reminder 7 ''08:30'' ''Feed the dog'' (run []))) =
     [(''7'', \<lparr>weights = [], reminders = [\<lparr>time = ''08:30'', message = ''Feed the dog''\<rparr>,
         \<lparr>time = ''08:30'', message = ''Feed the dog''\<rparr>]\<rparr>)]
   \<and> job_ids (add_reminder 7 ''08:30'' ''Feed the dog'' (add_reminder 7 ''08:30'' ''Feed the dog'' (run [])))
       = [''reminder_7_08:30_Feed_the_dog'']"
  by code_simp

theorem add_reminder_idempotent_witness:
  "valid_time ''08:30'' \<and> ''Feed the dog'' \<noteq> []
   \<and> job_ids (add_reminder 7 ''08:30'' ''Feed the dog'' (add_reminder 7 ''08:30'' ''Feed the dog'' (run [])))
       = [''reminder_7_08:30_Feed_the_dog'']
   \<and> live_jobs (job_id_of 7 ''08:30'' ''Feed the dog'')
        (add_reminder 7 ''08:30'' ''Feed the dog'' (add_reminder 7 ''08:30'' ''Feed the dog'' (run []))) = 1
   \<and> live_jobs (job_id_of 7 ''08:30'' ''Feed the dog'')
        (step (Restart True) (add_reminder 7 ''08:30'' ''Feed the dog'' (run []))) = 1"
proof -
  have w: "disk_writable (run [])" by code_simp
  have n: "''Feed the dog'' \<noteq> []" by simp
  show ?thesis
    using add_reminder_idempotent [OF valid_time_0830 n, of "[]" 7 True] w
    by (simp add: Let_def valid_time_0830 feed_the_dog_twice)
qed

end
